theory Spec2Isabelle
  imports Complex_Main
begin

section \<open>Characters and strings\<close>

text \<open>
  The program is Python; its texts are \<open>str\<close> values. They are modelled as \<open>string\<close>, so a
  character is one of the code points 0..255. On that range the classes below are the ones
  Python uses: \<open>str.lower\<close>, \<open>str.isspace\<close> (also the \<open>\s\<close> of \<open>re\<close> and the separator
  of \<open>str.split()\<close>), the \<open>\d\<close> of \<open>re\<close> (decimal digits) and the \<open>\w\<close> of \<open>re\<close>
  (\<open>str.isalnum\<close> or underscore). Code points above 255 are outside the model.
\<close>

definition code :: "char \<Rightarrow> nat" where
  "code c = of_char c"

definition is_digit :: "char \<Rightarrow> bool" where
  "is_digit c = (48 \<le> code c \<and> code c \<le> 57)"

definition is_space :: "char \<Rightarrow> bool" where
  "is_space c = ((9 \<le> code c \<and> code c \<le> 13) \<or> (28 \<le> code c \<and> code c \<le> 32)
     \<or> code c = 133 \<or> code c = 160)"

definition is_ascii_alpha :: "char \<Rightarrow> bool" where
  "is_ascii_alpha c = ((65 \<le> code c \<and> code c \<le> 90) \<or> (97 \<le> code c \<and> code c \<le> 122))"

definition is_alnum :: "char \<Rightarrow> bool" where
  "is_alnum c = (is_digit c \<or> is_ascii_alpha c
     \<or> code c = 170 \<or> code c = 178 \<or> code c = 179 \<or> code c = 181 \<or> code c = 185
     \<or> code c = 186 \<or> (188 \<le> code c \<and> code c \<le> 190)
     \<or> (192 \<le> code c \<and> code c \<le> 214) \<or> (216 \<le> code c \<and> code c \<le> 246)
     \<or> 248 \<le> code c)"

definition is_word :: "char \<Rightarrow> bool" where
  "is_word c = (is_alnum c \<or> c = CHR ''_'')"

definition lower_char :: "char \<Rightarrow> char" where
  "lower_char c =
     (if (65 \<le> code c \<and> code c \<le> 90) \<or> (192 \<le> code c \<and> code c \<le> 214)
         \<or> (216 \<le> code c \<and> code c \<le> 222)
      then char_of (code c + 32) else c)"

definition lower :: "string \<Rightarrow> string" where
  "lower t = map lower_char t"

text \<open>\<open>p in t\<close> on strings: \<open>p\<close> occurs in \<open>t\<close> as a contiguous run.\<close>

fun starts_with :: "string \<Rightarrow> string \<Rightarrow> bool" where
  "starts_with t [] = True"
| "starts_with [] (y # ys) = False"
| "starts_with (x # xs) (y # ys) = (x = y \<and> starts_with xs ys)"

fun contains :: "string \<Rightarrow> string \<Rightarrow> bool" where
  "contains [] p = (p = [])"
| "contains (x # xs) p = (starts_with (x # xs) p \<or> contains xs p)"

text \<open>\<open>t.split()\<close>: the maximal runs of characters that are not whitespace.\<close>

fun split_acc :: "string \<Rightarrow> string \<Rightarrow> string list" where
  "split_acc w [] = (if w = [] then [] else [rev w])"
| "split_acc w (x # xs) =
     (if is_space x then (if w = [] then split_acc [] xs else rev w # split_acc [] xs)
      else split_acc (x # w) xs)"

definition split :: "string \<Rightarrow> string list" where
  "split t = split_acc [] t"

section \<open>The regular expressions of the extractors\<close>

text \<open>
  \<open>re.search\<close> is a backtracking matcher: at the leftmost start position that admits a
  match it returns the first match in priority order (a greedy quantifier tries the longest
  run first, an alternation its branches from left to right, an optional part is tried
  before it is skipped). The patterns of the source use literals, character classes,
  \<open>\b\<close>, sequence, alternation, \<open>?\<close>, capturing groups, and quantifiers applied to a
  single character class only; \<open>regex\<close> has exactly these.

  A matching state is the text before the position (reversed), the text from the position
  on, and the groups captured so far. \<open>ms r st\<close> lists, in priority order, the states in
  which a match of \<open>r\<close> started in \<open>st\<close> can end.
\<close>

datatype regex =
    Eps
  | Chr "char \<Rightarrow> bool"
  | Bound
  | Seq regex regex
  | Alt regex regex
  | Opt regex
  | Rep "char \<Rightarrow> bool" nat "nat option"
  | Grp nat regex

type_synonym groups = "nat \<Rightarrow> string option"
type_synonym mstate = "string \<times> string \<times> groups"

definition word_before :: "string \<Rightarrow> bool" where
  "word_before b = (case b of [] \<Rightarrow> False | x # _ \<Rightarrow> is_word x)"

definition at_boundary :: "string \<Rightarrow> string \<Rightarrow> bool" where
  "at_boundary b r = (word_before b \<noteq> word_before r)"

fun rep :: "(char \<Rightarrow> bool) \<Rightarrow> nat \<Rightarrow> nat option \<Rightarrow> string \<Rightarrow> string \<Rightarrow> groups \<Rightarrow> mstate list" where
  "rep p lo hi b [] g = (if lo = 0 then [(b, [], g)] else [])"
| "rep p lo hi b (x # xs) g =
     (if p x \<and> hi \<noteq> Some 0
      then rep p (lo - 1) (map_option (\<lambda>h. h - 1) hi) (x # b) xs g
           @ (if lo = 0 then [(b, x # xs, g)] else [])
      else (if lo = 0 then [(b, x # xs, g)] else []))"

definition consumed :: "string \<Rightarrow> string \<Rightarrow> string" where
  "consumed b b' = rev (take (length b' - length b) b')"

fun ms :: "regex \<Rightarrow> mstate \<Rightarrow> mstate list" where
  "ms Eps st = [st]"
| "ms (Chr p) (b, r, g) =
     (case r of [] \<Rightarrow> [] | x # xs \<Rightarrow> if p x then [(x # b, xs, g)] else [])"
| "ms Bound (b, r, g) = (if at_boundary b r then [(b, r, g)] else [])"
| "ms (Seq x y) st = concat (map (ms y) (ms x st))"
| "ms (Alt x y) st = ms x st @ ms y st"
| "ms (Opt x) st = ms x st @ [st]"
| "ms (Rep p lo hi) (b, r, g) = rep p lo hi b r g"
| "ms (Grp n x) (b, r, g) =
     map (\<lambda>(b', r', g'). (b', r', g'(n := Some (consumed b b')))) (ms x (b, r, g))"

text \<open>
  \<open>scan\<close> tries the start positions from left to right; a match object is the matched
  text (\<open>group()\<close>) with the captured groups (\<open>group(n)\<close>, \<open>None\<close> for a group that took
  no part in the match).
\<close>

type_synonym match_obj = "string \<times> groups"

definition first_match :: "regex \<Rightarrow> string \<Rightarrow> string \<Rightarrow> match_obj option" where
  "first_match re b r =
     (case ms re (b, r, \<lambda>_. None) of [] \<Rightarrow> None
      | (b', r', g) # _ \<Rightarrow> Some (consumed b b', g))"

fun scan :: "regex \<Rightarrow> string \<Rightarrow> string \<Rightarrow> match_obj option" where
  "scan re b [] = first_match re b []"
| "scan re b (x # xs) =
     (case first_match re b (x # xs) of None \<Rightarrow> scan re (x # b) xs | Some m \<Rightarrow> Some m)"

definition search :: "regex \<Rightarrow> string \<Rightarrow> match_obj option" where
  "search re t = scan re [] t"

text \<open>A literal, and a literal under \<open>re.IGNORECASE\<close>.\<close>

fun lit :: "string \<Rightarrow> regex" where
  "lit [] = Eps"
| "lit (x # xs) = Seq (Chr (\<lambda>c. c = x)) (lit xs)"

fun lit_i :: "string \<Rightarrow> regex" where
  "lit_i [] = Eps"
| "lit_i (x # xs) = Seq (Chr (\<lambda>c. lower_char c = lower_char x)) (lit_i xs)"

text \<open>\<open>[a-zA-Z0-9_\-]\<close>, which \<open>re.IGNORECASE\<close> leaves as it is on the code points 0..255.\<close>

definition name_char :: "char \<Rightarrow> bool" where
  "name_char c = (is_ascii_alpha c \<or> is_digit c \<or> c = CHR ''_'' \<or> c = CHR ''-'')"

text \<open>\<open>\b(?:PRJ-|P)?\d{1,}\b\<close>\<close>

definition project_number_re :: regex where
  "project_number_re =
     Seq Bound (Seq (Opt (Alt (lit ''PRJ-'') (lit ''P''))) (Seq (Rep is_digit 1 None) Bound))"

text \<open>\<open>(?:project\s+)?([a-zA-Z0-9_\-]+)\<close> with \<open>re.IGNORECASE\<close>\<close>

definition project_name_re :: regex where
  "project_name_re =
     Seq (Opt (Seq (lit_i ''project'') (Rep is_space 1 None))) (Grp 1 (Rep name_char 1 None))"

text \<open>\<open>\b(\d+(?:\.\d{1,2})?)\s*(USD|EUR|GBP|dollars|euros|pounds)?\b\<close> with \<open>re.IGNORECASE\<close>\<close>

definition currency_re :: regex where
  "currency_re =
     Alt (lit_i ''USD'') (Alt (lit_i ''EUR'') (Alt (lit_i ''GBP'')
       (Alt (lit_i ''dollars'') (Alt (lit_i ''euros'') (lit_i ''pounds'')))))"

definition number_token_re :: regex where
  "number_token_re =
     Seq (Rep is_digit 1 None) (Opt (Seq (lit ''.'') (Rep is_digit 1 (Some 2))))"

definition amount_re :: regex where
  "amount_re =
     Seq Bound (Seq (Grp 1 number_token_re)
       (Seq (Rep is_space 0 None) (Seq (Opt (Grp 2 currency_re)) Bound)))"

section \<open>The field extractors\<close>

datatype error = ValueError | TypeError | AttributeError | DatabaseError

text \<open>
  \<open>float(x)\<close>: \<open>TypeError\<close> on \<open>None\<close>, \<open>ValueError\<close> on a string that is not a number.
  Of the strings Python accepts the model accepts the plain decimals, digits with an
  optional point (\<open>12\<close>, \<open>12.\<close>, \<open>12.5\<close>, \<open>.5\<close>), and raises on every other string, so
  the model raises wherever Python does. The result is the exact value of the decimal;
  Python rounds it to the nearest binary64 number, which is zero exactly when the exact
  value is.
\<close>

definition digits_val :: "string \<Rightarrow> nat" where
  "digits_val ds = foldl (\<lambda>a c. 10 * a + (code c - 48)) 0 ds"

definition py_float :: "string option \<Rightarrow> error + rat" where
  "py_float x =
     (case x of None \<Rightarrow> Inl TypeError
      | Some s \<Rightarrow>
         (let ip = takeWhile is_digit s; rest = dropWhile is_digit s
          in case rest of
               [] \<Rightarrow> if ip = [] then Inl ValueError else Inr (of_nat (digits_val ip))
             | d # fp \<Rightarrow>
                 if d = CHR ''.'' \<and> list_all is_digit fp \<and> (ip \<noteq> [] \<or> fp \<noteq> [])
                 then Inr (of_nat (digits_val ip) + of_nat (digits_val fp) / 10 ^ length fp)
                 else Inl ValueError))"

definition extract_project_info :: "string \<Rightarrow> string option \<times> string option" where
  "extract_project_info text =
     (let project_number_match = search project_number_re text;
          project_number = (case project_number_match of Some m \<Rightarrow> Some (fst m) | None \<Rightarrow> None);
          project_name_match = search project_name_re text;
          project_name = (case project_name_match of Some m \<Rightarrow> snd m 1 | None \<Rightarrow> None)
      in (project_name, project_number))"

definition extract_amount :: "string \<Rightarrow> error + (rat option \<times> string option)" where
  "extract_amount text =
     (case search amount_re text of
        Some m \<Rightarrow>
          (case py_float (snd m 1) of
             Inl e \<Rightarrow> Inl e
           | Inr amount \<Rightarrow>
               (let currency = (case snd m 2 of
                                  Some c \<Rightarrow> if c \<noteq> [] then c else ''USD''
                                | None \<Rightarrow> ''USD'')
                in Inr (Some amount, Some currency)))
      | None \<Rightarrow> Inr (None, None))"

section \<open>The dialogue session, the transcript and the request store\<close>

text \<open>
  A message of the transcript is the dictionary \<open>{"text": ..., "sender": ...}\<close>. The texts
  of the assistant are fixed sentences and f-strings, some with characters above code
  point 255; a text is therefore modelled as the sentence it is, with the interpolated
  values as arguments:
  \<^item> \<open>Said t\<close>: the utterance \<open>t\<close>, as the user gave it;
  \<^item> \<open>Welcome\<close>: "Welcome! Please provide the project information (name or number).";
  \<^item> \<open>Submitted\<close>: "Request submitted successfully!";
  \<^item> \<open>Start_New\<close>: "You can start a new request now.";
  \<^item> \<open>Project_Info name number\<close>: "Project info: {name} ({number})";
  \<^item> \<open>Ask_Amount\<close>: "Please specify the amount.";
  \<^item> \<open>No_Project_Number\<close>: "I couldn't detect a project number. Please mention it explicitly.";
  \<^item> \<open>Amount_Received amount currency\<close>: "Amount received: {amount} {currency}";
  \<^item> \<open>Ask_Reason\<close>: "What's the reason for this expense?";
  \<^item> \<open>No_Amount\<close>: "Couldn't detect an amount. Please specify it.";
  \<^item> \<open>Summary name number amount currency reason\<close>: the text of \<open>display_summary\<close>,
    "Summary of your request: ... Is this correct? (yes/no)", with the five values that
    \<open>request.get\<close> returns;
  \<^item> \<open>Reason_Too_Short\<close>: "Please provide a more detailed reason for the expense.";
  \<^item> \<open>Cancelled\<close>: "Request cancelled. Let's start over.";
  \<^item> \<open>Confirm_Yes_No\<close>: "Please confirm with 'yes' or 'no'.".
\<close>

datatype msg_text =
    Said string
  | Welcome
  | Submitted
  | Start_New
  | Project_Info string string
  | Ask_Amount
  | No_Project_Number
  | Amount_Received rat "string option"
  | Ask_Reason
  | No_Amount
  | Summary "string option" "string option" "rat option" "string option" "string option"
  | Reason_Too_Short
  | Cancelled
  | Confirm_Yes_No

record message =
  m_text :: msg_text
  m_sender :: string

text \<open>
  The request in progress is a dictionary that only ever has the five keys below, read
  with \<open>.get\<close>: a key that is absent reads as \<open>None\<close>.
\<close>

record request =
  project_name :: "string option"
  project_number :: "string option"
  amount :: "rat option"
  currency :: "string option"
  reason :: "string option"

definition empty_request :: request where
  "empty_request = \<lparr>project_name = None, project_number = None, amount = None,
     currency = None, reason = None\<rparr>"

text \<open>
  A row of the table \<open>requests\<close>; the table is the list of its rows in the order they were
  inserted, the \<open>id\<close> of a row being its place in the list.
\<close>

record row =
  row_project_name :: "string option"
  row_project_number :: "string option"
  row_amount :: "rat option"
  row_currency :: "string option"
  row_reason :: "string option"
  row_timestamp :: nat
  row_status :: string

text \<open>
  The state a turn works on: the three keys of \<open>st.session_state\<close>, each of which may be
  absent, and the table.
\<close>

record world =
  messages :: "message list option"
  stage :: "string option"
  request :: "request option"
  db :: "row list"

text \<open>
  What a turn takes from outside: the clock (\<open>datetime.now()\<close>) and whether the database
  accepts the insertion (\<open>sqlite3\<close> raises otherwise).
\<close>

record env =
  now :: nat
  db_ok :: bool

definition add_message :: "msg_text \<Rightarrow> string \<Rightarrow> world \<Rightarrow> world" where
  "add_message t s w =
     w\<lparr>messages := Some ((case messages w of None \<Rightarrow> [] | Some l \<Rightarrow> l)
                           @ [\<lparr>m_text = t, m_sender = s\<rparr>])\<rparr>"

definition display_summary :: "world \<Rightarrow> error + world" where
  "display_summary w =
     (case request w of
        None \<Rightarrow> Inl AttributeError
      | Some r \<Rightarrow>
          Inr (add_message
                 (Summary (project_name r) (project_number r) (amount r) (currency r) (reason r))
                 ''assistant'' w))"

definition save_request :: "env \<Rightarrow> world \<Rightarrow> error + world" where
  "save_request e w =
     (if \<not> db_ok e then Inl DatabaseError
      else case request w of
        None \<Rightarrow> Inl AttributeError
      | Some r \<Rightarrow>
          Inr (w\<lparr>db := db w @
                 [\<lparr>row_project_name = project_name r, row_project_number = project_number r,
                   row_amount = amount r, row_currency = currency r, row_reason = reason r,
                   row_timestamp = now e, row_status = ''Pending''\<rparr>]\<rparr>))"

definition affirmative_responses :: "string list" where
  "affirmative_responses =
     [''yes'', ''sure'', ''ok'', ''affirmative'', ''yep'', ''yeah'', ''proceed'']"

definition affirmative :: "string \<Rightarrow> bool" where
  "affirmative t = list_ex (contains t) affirmative_responses"

text \<open>\<open>x or d\<close> on an optional string: \<open>None\<close> and the empty string are false.\<close>

definition or_default :: "string option \<Rightarrow> string \<Rightarrow> string" where
  "or_default x d = (case x of None \<Rightarrow> d | Some s \<Rightarrow> if s = [] then d else s)"

text \<open>
  \<open>process_request\<close>. A result \<open>Inr w'\<close> is a normal return that leaves the state \<open>w'\<close>;
  \<open>Inl (e, w')\<close> is the exception \<open>e\<close> leaving the function, with the state \<open>w'\<close> that the
  assignments made before it have left. The two extractors are parameters of
  \<open>process_request_with\<close>, so that a theorem can say that a turn does not depend on them;
  \<open>process_request\<close> is the function of the source.
\<close>

definition process_request_with ::
  "(string \<Rightarrow> string option \<times> string option) \<Rightarrow> (string \<Rightarrow> error + (rat option \<times> string option))
     \<Rightarrow> env \<Rightarrow> world \<Rightarrow> string \<Rightarrow> (error \<times> world) + world" where
  "process_request_with xp xa e w utterance =
     (let w1 = add_message (Said utterance) ''user'' w;
          st = (case stage w1 of None \<Rightarrow> ''project'' | Some s \<Rightarrow> s);
          rq = (case request w1 of None \<Rightarrow> empty_request | Some r \<Rightarrow> r);
          w2 = w1\<lparr>stage := Some st, request := Some rq\<rparr>;
          text = lower utterance
      in
      if affirmative text then
        (if st = ''confirm'' then
           (case save_request e w2 of
              Inl err \<Rightarrow> Inl (err, w2)
            | Inr w3 \<Rightarrow>
                Inr ((add_message Start_New ''assistant''
                       (add_message Submitted ''assistant''
                         (w3\<lparr>stage := Some ''project'', request := Some empty_request\<rparr>)))
                     \<lparr>messages := Some []\<rparr>))
         else Inr w2)
      else if st = ''project'' then
        (case xp text of
           (name, Some number) \<Rightarrow>
             if number \<noteq> [] then
               Inr (add_message Ask_Amount ''assistant''
                     (add_message (Project_Info (or_default name ''Unnamed Project'') number)
                        ''assistant''
                        (w2\<lparr>request := Some (rq\<lparr>project_name :=
                                                    Some (or_default name ''Unnamed Project''),
                                                  project_number := Some number\<rparr>),
                            stage := Some ''amount''\<rparr>)))
             else Inr (add_message No_Project_Number ''assistant'' w2)
         | (name, None) \<Rightarrow> Inr (add_message No_Project_Number ''assistant'' w2))
      else if st = ''amount'' then
        (case xa text of
           Inl err \<Rightarrow> Inl (err, w2)
         | Inr (Some a, cur) \<Rightarrow>
             if a \<noteq> 0 then
               Inr (add_message Ask_Reason ''assistant''
                     (add_message (Amount_Received a cur) ''assistant''
                        (w2\<lparr>request := Some (rq\<lparr>amount := Some a, currency := cur\<rparr>),
                            stage := Some ''reason''\<rparr>)))
             else Inr (add_message No_Amount ''assistant'' w2)
         | Inr (None, cur) \<Rightarrow> Inr (add_message No_Amount ''assistant'' w2))
      else if st = ''reason'' then
        (if length (split text) \<ge> 3 then
           (case display_summary (w2\<lparr>request := Some (rq\<lparr>reason := Some text\<rparr>),
                                      stage := Some ''confirm''\<rparr>) of
              Inl err \<Rightarrow>
                Inl (err, w2\<lparr>request := Some (rq\<lparr>reason := Some text\<rparr>),
                             stage := Some ''confirm''\<rparr>)
            | Inr w3 \<Rightarrow> Inr w3)
         else Inr (add_message Reason_Too_Short ''assistant'' w2))
      else if st = ''confirm'' then
        (if lower text \<in> set [''no'', ''cancel''] then
           Inr (add_message Cancelled ''assistant''
                 (w2\<lparr>stage := Some ''project'', request := Some empty_request\<rparr>))
         else Inr (add_message Confirm_Yes_No ''assistant'' w2))
      else Inr w2)"

definition process_request :: "env \<Rightarrow> world \<Rightarrow> string \<Rightarrow> (error \<times> world) + world" where
  "process_request = process_request_with extract_project_info extract_amount"

text \<open>
  The start of a conversation, as \<open>main\<close> sets it up on the first run of the script: the
  transcript holds the welcome message, the stage is \<open>project\<close>, and the key \<open>request\<close> is
  not there yet (the first turn creates the empty request). The table may hold rows of
  earlier conversations.
\<close>

definition initial_world :: "row list \<Rightarrow> world" where
  "initial_world rows =
     \<lparr>messages = Some [\<lparr>m_text = Welcome, m_sender = ''assistant''\<rparr>],
      stage = Some ''project'', request = None, db = rows\<rparr>"

text \<open>
  The state a turn leaves, whether it returned or raised (the session outlives an
  exception), and the state after a sequence of turns.
\<close>

definition after_turn :: "env \<Rightarrow> world \<Rightarrow> string \<Rightarrow> world" where
  "after_turn e w utterance =
     (case process_request e w utterance of Inl (err, w') \<Rightarrow> w' | Inr w' \<Rightarrow> w')"

fun run :: "world \<Rightarrow> (env \<times> string) list \<Rightarrow> world" where
  "run w [] = w"
| "run w ((e, utterance) # turns) = run (after_turn e w utterance) turns"

text \<open>The request a state holds, the absent key read as the empty request it stands for.\<close>

definition cur_request :: "world \<Rightarrow> request" where
  "cur_request w = (case request w of None \<Rightarrow> empty_request | Some r \<Rightarrow> r)"

definition transcript :: "world \<Rightarrow> message list" where
  "transcript w = (case messages w of None \<Rightarrow> [] | Some l \<Rightarrow> l)"

definition cur_stage :: "world \<Rightarrow> string" where
  "cur_stage w = (case stage w of None \<Rightarrow> ''project'' | Some s \<Rightarrow> s)"

section \<open>Notions used in the statements\<close>

text \<open>
  A number token as the specification words it: digits, then optionally a point with one
  or two digits; \<open>decimal_value\<close> is the number it denotes. \<open>currency_tokens\<close> is the
  closed set of currency words, in lower case.
\<close>

definition number_token :: "string \<Rightarrow> bool" where
  "number_token n =
     (takeWhile is_digit n \<noteq> [] \<and>
      (case dropWhile is_digit n of
         [] \<Rightarrow> True
       | d # fs \<Rightarrow> d = CHR ''.'' \<and> list_all is_digit fs \<and> 1 \<le> length fs \<and> length fs \<le> 2))"

definition decimal_value :: "string \<Rightarrow> rat" where
  "decimal_value n =
     (let ip = takeWhile is_digit n; fs = drop 1 (dropWhile is_digit n)
      in of_nat (digits_val ip) + of_nat (digits_val fs) / 10 ^ length fs)"

definition currency_tokens :: "string list" where
  "currency_tokens = [''usd'', ''eur'', ''gbp'', ''dollars'', ''euros'', ''pounds'']"

text \<open>
  The order in which the fields of a request are filled, what it means for a turn to keep
  the fields that are set, and the shape of the request at each stage.
\<close>

definition fields_in_order :: "request \<Rightarrow> bool" where
  "fields_in_order r =
     ((amount r \<noteq> None \<longrightarrow> project_number r \<noteq> None) \<and> (reason r \<noteq> None \<longrightarrow> amount r \<noteq> None))"

definition keeps_set_fields :: "request \<Rightarrow> request \<Rightarrow> bool" where
  "keeps_set_fields r r' =
     ((project_name r \<noteq> None \<longrightarrow> project_name r' = project_name r) \<and>
      (project_number r \<noteq> None \<longrightarrow> project_number r' = project_number r) \<and>
      (amount r \<noteq> None \<longrightarrow> amount r' = amount r) \<and>
      (currency r \<noteq> None \<longrightarrow> currency r' = currency r) \<and>
      (reason r \<noteq> None \<longrightarrow> reason r' = reason r))"

definition stage_inv :: "world \<Rightarrow> bool" where
  "stage_inv w =
     ((cur_stage w = ''project'' \<and> cur_request w = empty_request) \<or>
      (cur_stage w = ''amount'' \<and> project_name (cur_request w) \<noteq> None
         \<and> project_number (cur_request w) \<noteq> None \<and> amount (cur_request w) = None
         \<and> currency (cur_request w) = None \<and> reason (cur_request w) = None) \<or>
      (cur_stage w = ''reason'' \<and> project_name (cur_request w) \<noteq> None
         \<and> project_number (cur_request w) \<noteq> None \<and> amount (cur_request w) \<noteq> None
         \<and> reason (cur_request w) = None) \<or>
      (cur_stage w = ''confirm'' \<and> project_name (cur_request w) \<noteq> None
         \<and> project_number (cur_request w) \<noteq> None \<and> amount (cur_request w) \<noteq> None
         \<and> reason (cur_request w) \<noteq> None))"

section \<open>Example sessions\<close>

text \<open>
  A store that accepts the insertion and one that rejects it, and the states of a
  conversation that has given the project, then the amount, then the reason.
\<close>

definition env_ok :: env where
  "env_ok = \<lparr>now = 7, db_ok = True\<rparr>"

definition env_down :: env where
  "env_down = \<lparr>now = 7, db_ok = False\<rparr>"

definition at_amount :: world where
  "at_amount = run (initial_world []) [(env_ok, ''project 4021'')]"

definition at_reason :: world where
  "at_reason = run at_amount [(env_ok, ''300 USD'')]"

definition at_confirm :: world where
  "at_confirm = run at_reason [(env_ok, ''Client dinner with partners'')]"

section \<open>Lower-casing\<close>

lemma code_lower_char:
  "code (lower_char c) =
     (if (65 \<le> code c \<and> code c \<le> 90) \<or> (192 \<le> code c \<and> code c \<le> 214)
         \<or> (216 \<le> code c \<and> code c \<le> 222)
      then code c + 32 else code c)"
  by (auto simp: lower_char_def code_def)

lemma code_inject: "code a = code b \<Longrightarrow> a = b"
  by (simp add: code_def)

lemma lower_char_idem: "lower_char (lower_char c) = lower_char c"
  by (rule code_inject) (simp add: code_lower_char)

lemma lower_idem: "lower (lower t) = lower t"
  by (simp add: lower_def lower_char_idem)

lemma lower_no: "lower ''no'' = ''no''" "lower ''cancel'' = ''cancel''"
  by (simp_all add: lower_def lower_char_def code_def)

lemma not_affirmative_no: "\<not> affirmative ''no''" "\<not> affirmative ''cancel''"
  by (simp_all add: affirmative_def affirmative_responses_def)

section \<open>The example sessions, evaluated\<close>

lemma at_amount_eq:
  "at_amount =
     \<lparr>messages = Some [\<lparr>m_text = Welcome, m_sender = ''assistant''\<rparr>,
                       \<lparr>m_text = Said ''project 4021'', m_sender = ''user''\<rparr>,
                       \<lparr>m_text = Project_Info ''4021'' ''4021'', m_sender = ''assistant''\<rparr>,
                       \<lparr>m_text = Ask_Amount, m_sender = ''assistant''\<rparr>],
      stage = Some ''amount'',
      request = Some \<lparr>project_name = Some ''4021'', project_number = Some ''4021'',
                      amount = None, currency = None, reason = None\<rparr>,
      db = []\<rparr>"
  by code_simp

lemma at_reason_eq:
  "at_reason =
     \<lparr>messages = Some [\<lparr>m_text = Welcome, m_sender = ''assistant''\<rparr>,
                       \<lparr>m_text = Said ''project 4021'', m_sender = ''user''\<rparr>,
                       \<lparr>m_text = Project_Info ''4021'' ''4021'', m_sender = ''assistant''\<rparr>,
                       \<lparr>m_text = Ask_Amount, m_sender = ''assistant''\<rparr>,
                       \<lparr>m_text = Said ''300 USD'', m_sender = ''user''\<rparr>,
                       \<lparr>m_text = Amount_Received 300 (Some ''usd''), m_sender = ''assistant''\<rparr>,
                       \<lparr>m_text = Ask_Reason, m_sender = ''assistant''\<rparr>],
      stage = Some ''reason'',
      request = Some \<lparr>project_name = Some ''4021'', project_number = Some ''4021'',
                      amount = Some 300, currency = Some ''usd'', reason = None\<rparr>,
      db = []\<rparr>"
  unfolding at_reason_def at_amount_eq by code_simp

lemma at_confirm_eq:
  "at_confirm =
     \<lparr>messages = Some [\<lparr>m_text = Welcome, m_sender = ''assistant''\<rparr>,
                       \<lparr>m_text = Said ''project 4021'', m_sender = ''user''\<rparr>,
                       \<lparr>m_text = Project_Info ''4021'' ''4021'', m_sender = ''assistant''\<rparr>,
                       \<lparr>m_text = Ask_Amount, m_sender = ''assistant''\<rparr>,
                       \<lparr>m_text = Said ''300 USD'', m_sender = ''user''\<rparr>,
                       \<lparr>m_text = Amount_Received 300 (Some ''usd''), m_sender = ''assistant''\<rparr>,
                       \<lparr>m_text = Ask_Reason, m_sender = ''assistant''\<rparr>,
                       \<lparr>m_text = Said ''Client dinner with partners'', m_sender = ''user''\<rparr>,
                       \<lparr>m_text = Summary (Some ''4021'') (Some ''4021'') (Some 300) (Some ''usd'')
                                   (Some ''client dinner with partners''),
                         m_sender = ''assistant''\<rparr>],
      stage = Some ''confirm'',
      request = Some \<lparr>project_name = Some ''4021'', project_number = Some ''4021'',
                      amount = Some 300, currency = Some ''usd'',
                      reason = Some ''client dinner with partners''\<rparr>,
      db = []\<rparr>"
  unfolding at_confirm_def at_reason_eq by code_simp

lemma run_three_turns:
  "run (initial_world [])
     [(env_ok, ''project 4021''), (env_ok, ''300 USD''), (env_ok, ''Client dinner with partners'')]
   = at_confirm"
  by (simp add: at_confirm_def at_reason_def at_amount_def)

section \<open>What a match of each pattern consists of\<close>

lemma rep_elem:
  "(b', r', g') \<in> set (rep p lo hi b r g) \<Longrightarrow>
     \<exists>ds. r = ds @ r' \<and> b' = rev ds @ b \<and> g' = g \<and> list_all p ds \<and> lo \<le> length ds
        \<and> (\<forall>h. hi = Some h \<longrightarrow> length ds \<le> h)"
proof (induction r arbitrary: lo hi b)
  case Nil
  then show ?case by (auto split: if_splits)
next
  case (Cons x xs)
  show ?case
  proof (cases "(b', r', g') \<in> set (if lo = 0 then [(b, x # xs, g)] else [])")
    case True
    then show ?thesis by (auto split: if_splits)
  next
    case False
    with Cons.prems have px: "p x" and h0: "hi \<noteq> Some 0"
      and mem: "(b', r', g') \<in> set (rep p (lo - 1) (map_option (\<lambda>h. h - 1) hi) (x # b) xs g)"
      by (auto split: if_splits)
    from Cons.IH [OF mem] obtain ds where ds: "xs = ds @ r'" "b' = rev ds @ x # b" "g' = g"
      "list_all p ds" "lo - 1 \<le> length ds"
      "\<forall>h. map_option (\<lambda>h. h - 1) hi = Some h \<longrightarrow> length ds \<le> h"
      by auto
    have "\<forall>h. hi = Some h \<longrightarrow> length (x # ds) \<le> h"
      using ds(6) h0 by (cases hi) auto
    with ds px show ?thesis
      by (intro exI [of _ "x # ds"]) auto
  qed
qed

lemma rep_zero_nonempty: "rep p 0 hi b r g \<noteq> []"
  by (cases r) auto

lemma ms_consumes:
  "(b', r', g') \<in> set (ms re (b, r, g)) \<Longrightarrow> \<exists>ds. r = ds @ r' \<and> b' = rev ds @ b"
proof (induction re arbitrary: b r g b' r' g')
  case Eps
  then show ?case by simp
next
  case (Chr p)
  then show ?case by (auto split: list.splits if_splits)
next
  case Bound
  then show ?case by (auto split: if_splits)
next
  case (Seq x y)
  from Seq.prems obtain b1 r1 g1 where
    m1: "(b1, r1, g1) \<in> set (ms x (b, r, g))" and m2: "(b', r', g') \<in> set (ms y (b1, r1, g1))"
    by auto
  from Seq.IH(1) [OF m1] obtain d1 where "r = d1 @ r1" "b1 = rev d1 @ b" by auto
  moreover from Seq.IH(2) [OF m2] obtain d2 where "r1 = d2 @ r'" "b' = rev d2 @ b1" by auto
  ultimately show ?case by (intro exI [of _ "d1 @ d2"]) simp
next
  case (Alt x y)
  then show ?case by auto
next
  case (Opt x)
  then show ?case by auto
next
  case (Rep p lo hi)
  then show ?case using rep_elem [of b' r' g' p lo hi b r g] by auto
next
  case (Grp n x)
  then show ?case by auto
qed

lemma consumed_append: "consumed b (rev ds @ b) = ds"
  by (simp add: consumed_def)

lemma lit_elem:
  "(b', r', g') \<in> set (ms (lit s) (b, r, g)) \<longleftrightarrow> (r = s @ r' \<and> b' = rev s @ b \<and> g' = g)"
  by (induction s arbitrary: b r) (auto split: list.splits)

lemma lit_i_elem:
  "(b', r', g') \<in> set (ms (lit_i s) (b, r, g)) \<longleftrightarrow>
     (\<exists>ds. r = ds @ r' \<and> b' = rev ds @ b \<and> g' = g \<and> length ds = length s \<and> lower ds = lower s)"
proof (induction s arbitrary: b r)
  case Nil
  then show ?case by (auto simp: lower_def)
next
  case (Cons x xs)
  show ?case
  proof
    assume "(b', r', g') \<in> set (ms (lit_i (x # xs)) (b, r, g))"
    then obtain c cs where r: "r = c # cs" and c: "lower_char c = lower_char x"
      and m: "(b', r', g') \<in> set (ms (lit_i xs) (c # b, cs, g))"
      by (auto split: list.splits if_splits)
    from m Cons.IH obtain ds where "cs = ds @ r'" "b' = rev ds @ c # b" "g' = g"
      "length ds = length xs" "lower ds = lower xs" by blast
    with r c show "\<exists>ds. r = ds @ r' \<and> b' = rev ds @ b \<and> g' = g \<and> length ds = length (x # xs)
        \<and> lower ds = lower (x # xs)"
      by (intro exI [of _ "c # ds"]) (simp add: lower_def)
  next
    assume "\<exists>ds. r = ds @ r' \<and> b' = rev ds @ b \<and> g' = g \<and> length ds = length (x # xs)
        \<and> lower ds = lower (x # xs)"
    then obtain ds where ds: "r = ds @ r'" "b' = rev ds @ b" "g' = g" "length ds = length (x # xs)"
      "lower ds = lower (x # xs)" by blast
    then obtain c cs where dc: "ds = c # cs" by (cases ds) auto
    with ds have "lower_char c = lower_char x" "lower cs = lower xs" "length cs = length xs"
      by (auto simp: lower_def)
    with ds dc Cons.IH [of "c # b" "cs @ r'"] show "(b', r', g') \<in> set (ms (lit_i (x # xs)) (b, r, g))"
      by auto
  qed
qed


lemma not_digit_point: "\<not> is_digit CHR ''.''"
  by (simp add: is_digit_def code_def)

lemma digits_then_point:
  "list_all is_digit ds \<Longrightarrow>
     takeWhile is_digit (ds @ CHR ''.'' # fs) = ds \<and>
     dropWhile is_digit (ds @ CHR ''.'' # fs) = CHR ''.'' # fs"
  by (induction ds) (simp_all add: not_digit_point)

lemma digits_only:
  "list_all is_digit ds \<Longrightarrow> takeWhile is_digit ds = ds \<and> dropWhile is_digit ds = []"
  by (induction ds) simp_all

lemma number_token_int: "list_all is_digit ds \<Longrightarrow> ds \<noteq> [] \<Longrightarrow> number_token ds"
  by (simp add: number_token_def digits_only)

lemma number_token_frac:
  "list_all is_digit ds \<Longrightarrow> ds \<noteq> [] \<Longrightarrow> list_all is_digit fs \<Longrightarrow> 1 \<le> length fs \<Longrightarrow>
     length fs \<le> 2 \<Longrightarrow> number_token (ds @ CHR ''.'' # fs)"
  by (simp add: number_token_def digits_then_point)

lemma py_float_number_token:
  assumes "number_token n"
  shows "py_float (Some n) = Inr (decimal_value n)"
proof (cases "dropWhile is_digit n")
  case Nil
  with assms show ?thesis
    by (simp add: number_token_def py_float_def decimal_value_def Let_def digits_val_def
        del: dropWhile_eq_Nil_conv)
next
  case (Cons d fs)
  with assms show ?thesis
    by (simp add: number_token_def py_float_def decimal_value_def Let_def)
qed

lemma number_token_re_elem:
  assumes "(b', r', g') \<in> set (ms number_token_re (b, r, g))"
  shows "\<exists>n. r = n @ r' \<and> b' = rev n @ b \<and> g' = g \<and> number_token n"
proof -
  from assms obtain b1 r1 g1 where
    m1: "(b1, r1, g1) \<in> set (rep is_digit 1 None b r g)" and
    m2: "(b', r', g') \<in> set (ms (Opt (Seq (lit ''.'') (Rep is_digit 1 (Some 2)))) (b1, r1, g1))"
    by (auto simp: number_token_re_def)
  from rep_elem [OF m1] obtain ds where ds: "r = ds @ r1" "b1 = rev ds @ b" "g1 = g"
    "list_all is_digit ds" "1 \<le> length ds" by auto
  then have ne: "ds \<noteq> []" by auto
  from m2 consider (skip) "(b', r', g') = (b1, r1, g1)"
    | (frac) "(b', r', g') \<in> set (ms (Seq (lit ''.'') (Rep is_digit 1 (Some 2))) (b1, r1, g1))"
    by auto
  then show ?thesis
  proof cases
    case skip
    with ds ne show ?thesis by (intro exI [of _ ds]) (simp add: number_token_int)
  next
    case frac
    then obtain b2 r2 g2 where
      p: "(b2, r2, g2) \<in> set (ms (lit ''.'') (b1, r1, g1))" and
      f: "(b', r', g') \<in> set (rep is_digit 1 (Some 2) b2 r2 g2)"
      by auto
    from p have p': "r1 = ''.'' @ r2" "b2 = rev ''.'' @ b1" "g2 = g1"
      unfolding lit_elem by auto
    from rep_elem [OF f] obtain fs where fs: "r2 = fs @ r'" "b' = rev fs @ b2" "g' = g2"
      "list_all is_digit fs" "1 \<le> length fs" "length fs \<le> 2" by auto
    with ds ne p' show ?thesis
      by (intro exI [of _ "ds @ CHR ''.'' # fs"]) (simp add: number_token_frac)
  qed
qed

lemma lower_currencies:
  "lower ''USD'' = ''usd''" "lower ''EUR'' = ''eur''" "lower ''GBP'' = ''gbp''"
  "lower ''dollars'' = ''dollars''" "lower ''euros'' = ''euros''" "lower ''pounds'' = ''pounds''"
  by code_simp+

lemma lit_i_currency:
  assumes "(b', r', g') \<in> set (ms (lit_i s) (b, r, g))" and "s \<noteq> []"
    and "lower s \<in> set currency_tokens"
  shows "\<exists>cur. r = cur @ r' \<and> b' = rev cur @ b \<and> g' = g \<and> cur \<noteq> []
           \<and> lower cur \<in> set currency_tokens"
proof -
  from assms(1) obtain cur where cur: "r = cur @ r'" "b' = rev cur @ b" "g' = g"
    "length cur = length s" "lower cur = lower s" unfolding lit_i_elem by blast
  from cur(4) assms(2) have "cur \<noteq> []" by auto
  with cur assms(3) show ?thesis by auto
qed

lemma currency_re_elem:
  assumes "(b', r', g') \<in> set (ms currency_re (b, r, g))"
  shows "\<exists>cur. r = cur @ r' \<and> b' = rev cur @ b \<and> g' = g \<and> cur \<noteq> []
           \<and> lower cur \<in> set currency_tokens"
proof -
  from assms have
    "(b', r', g') \<in> set (ms (lit_i ''USD'') (b, r, g)) \<or>
     (b', r', g') \<in> set (ms (lit_i ''EUR'') (b, r, g)) \<or>
     (b', r', g') \<in> set (ms (lit_i ''GBP'') (b, r, g)) \<or>
     (b', r', g') \<in> set (ms (lit_i ''dollars'') (b, r, g)) \<or>
     (b', r', g') \<in> set (ms (lit_i ''euros'') (b, r, g)) \<or>
     (b', r', g') \<in> set (ms (lit_i ''pounds'') (b, r, g))"
    by (simp only: currency_re_def ms.simps set_append Un_iff)
  then show ?thesis
  proof (elim disjE)
    assume "(b', r', g') \<in> set (ms (lit_i ''USD'') (b, r, g))"
    then show ?thesis
      by (rule lit_i_currency) (simp_all add: lower_currencies currency_tokens_def)
  next
    assume "(b', r', g') \<in> set (ms (lit_i ''EUR'') (b, r, g))"
    then show ?thesis
      by (rule lit_i_currency) (simp_all add: lower_currencies currency_tokens_def)
  next
    assume "(b', r', g') \<in> set (ms (lit_i ''GBP'') (b, r, g))"
    then show ?thesis
      by (rule lit_i_currency) (simp_all add: lower_currencies currency_tokens_def)
  next
    assume "(b', r', g') \<in> set (ms (lit_i ''dollars'') (b, r, g))"
    then show ?thesis
      by (rule lit_i_currency) (simp_all add: lower_currencies currency_tokens_def)
  next
    assume "(b', r', g') \<in> set (ms (lit_i ''euros'') (b, r, g))"
    then show ?thesis
      by (rule lit_i_currency) (simp_all add: lower_currencies currency_tokens_def)
  next
    assume "(b', r', g') \<in> set (ms (lit_i ''pounds'') (b, r, g))"
    then show ?thesis
      by (rule lit_i_currency) (simp_all add: lower_currencies currency_tokens_def)
  qed
qed


lemma ms_Seq_elem:
  "st' \<in> set (ms (Seq x y) st) \<longleftrightarrow> (\<exists>st1\<in>set (ms x st). st' \<in> set (ms y st1))"
  by simp

lemma ms_Bound_elem:
  "(b', r', g') \<in> set (ms Bound (b, r, g)) \<longleftrightarrow> (at_boundary b r \<and> b' = b \<and> r' = r \<and> g' = g)"
  by auto

lemma ms_Grp_elem:
  "(b', r', g') \<in> set (ms (Grp n x) (b, r, g)) \<longleftrightarrow>
     (\<exists>g0. (b', r', g0) \<in> set (ms x (b, r, g)) \<and> g' = g0(n := Some (consumed b b')))"
  by force

lemma ms_Opt_elem: "st' \<in> set (ms (Opt x) st) \<longleftrightarrow> (st' \<in> set (ms x st) \<or> st' = st)"
  by auto

lemma amount_re_elem:
  assumes "(b', r', g') \<in> set (ms amount_re (b, r, g))"
  shows "\<exists>n ws cur. r = n @ ws @ cur @ r' \<and> b' = rev (n @ ws @ cur) @ b
           \<and> number_token n \<and> list_all is_space ws \<and> g' 1 = Some n
           \<and> (cur = [] \<and> g' 2 = g 2 \<or> cur \<noteq> [] \<and> g' 2 = Some cur \<and> lower cur \<in> set currency_tokens)
           \<and> at_boundary b r \<and> at_boundary b' r'"
proof -
  from assms have
    "\<exists>st0\<in>set (ms Bound (b, r, g)). \<exists>st1\<in>set (ms (Grp 1 number_token_re) st0).
       \<exists>st2\<in>set (ms (Rep is_space 0 None) st1). \<exists>st3\<in>set (ms (Opt (Grp 2 currency_re)) st2).
         (b', r', g') \<in> set (ms Bound st3)"
    by (simp only: amount_re_def ms_Seq_elem)
  then obtain st0 st1 st2 st3 where
    s0: "st0 \<in> set (ms Bound (b, r, g))" and
    s1: "st1 \<in> set (ms (Grp 1 number_token_re) st0)" and
    s2: "st2 \<in> set (ms (Rep is_space 0 None) st1)" and
    s3: "st3 \<in> set (ms (Opt (Grp 2 currency_re)) st2)" and
    s4: "(b', r', g') \<in> set (ms Bound st3)"
    by blast
  obtain b1 r1 g1 where st1: "st1 = (b1, r1, g1)" by (cases st1)
  obtain b2 r2 g2 where st2: "st2 = (b2, r2, g2)" by (cases st2)
  from s0 have st0: "st0 = (b, r, g)" and bd: "at_boundary b r"
    by (cases st0; simp add: ms_Bound_elem split: if_splits)+
  from s4 have st3: "st3 = (b', r', g')" and bd': "at_boundary b' r'"
    by (cases st3; simp split: if_splits)+
  from s1 have "(b1, r1, g1) \<in> set (ms (Grp 1 number_token_re) (b, r, g))"
    unfolding st0 st1 .
  then obtain g0 where m1: "(b1, r1, g0) \<in> set (ms number_token_re (b, r, g))"
    and g1: "g1 = g0(1 := Some (consumed b b1))" unfolding ms_Grp_elem by blast
  from number_token_re_elem [OF m1] obtain n where n: "r = n @ r1" "b1 = rev n @ b" "g0 = g"
    "number_token n" by auto
  from s2 st1 st2 have "(b2, r2, g2) \<in> set (rep is_space 0 None b1 r1 g1)" by simp
  from rep_elem [OF this] obtain ws where ws: "r1 = ws @ r2" "b2 = rev ws @ b1" "g2 = g1"
    "list_all is_space ws" by auto
  from g1 n have g1n: "g1 = g(1 := Some n)" by (simp add: consumed_append)
  from s3 have "(b', r', g') \<in> set (ms (Opt (Grp 2 currency_re)) (b2, r2, g2))"
    unfolding st2 st3 .
  then consider (skip) "(b', r', g') = (b2, r2, g2)"
    | (cur) "(b', r', g') \<in> set (ms (Grp 2 currency_re) (b2, r2, g2))"
    unfolding ms_Opt_elem by blast
  then show ?thesis
  proof cases
    case skip
    with n ws g1n bd bd' show ?thesis
      by (intro exI [of _ n] exI [of _ ws] exI [of _ "[]"]) simp
  next
    case cur
    then obtain g3 where c: "(b', r', g3) \<in> set (ms currency_re (b2, r2, g2))"
      and g': "g' = g3(2 := Some (consumed b2 b'))" unfolding ms_Grp_elem by blast
    from currency_re_elem [OF c] obtain cu where cu: "r2 = cu @ r'" "b' = rev cu @ b2" "g3 = g2"
      "cu \<noteq> []" "lower cu \<in> set currency_tokens" by auto
    from g' cu have "g' = g2(2 := Some cu)" by (simp add: consumed_append)
    with n ws g1n bd bd' cu show ?thesis
      by (intro exI [of _ n] exI [of _ ws] exI [of _ cu]) simp
  qed
qed

lemma first_match_elem:
  "first_match re b r = Some m \<Longrightarrow>
     \<exists>b' r' g'. (b', r', g') \<in> set (ms re (b, r, \<lambda>_. None)) \<and> m = (consumed b b', g')"
  by (auto simp: first_match_def split: list.splits)

lemma first_match_None: "first_match re b r = None \<longleftrightarrow> ms re (b, r, \<lambda>_. None) = []"
  by (auto simp: first_match_def split: list.splits)

lemma scan_Some:
  "scan re b r = Some m \<Longrightarrow>
     \<exists>pre post. r = pre @ post \<and> first_match re (rev pre @ b) post = Some m
        \<and> (\<forall>k<length pre. first_match re (rev (take k pre) @ b) (drop k pre @ post) = None)"
proof (induction r arbitrary: b)
  case Nil
  then show ?case by simp
next
  case (Cons x xs)
  show ?case
  proof (cases "first_match re b (x # xs)")
    case (Some m')
    with Cons.prems have "first_match re (rev [] @ b) (x # xs) = Some m" by simp
    then show ?thesis by (intro exI [of _ "[]"] exI [of _ "x # xs"]) simp
  next
    case None
    with Cons.prems have "scan re (x # b) xs = Some m" by simp
    from Cons.IH [OF this] obtain pre post where p: "xs = pre @ post"
      "first_match re (rev pre @ x # b) post = Some m"
      "\<forall>k<length pre. first_match re (rev (take k pre) @ x # b) (drop k pre @ post) = None"
      by blast
    have "\<forall>k<length (x # pre).
        first_match re (rev (take k (x # pre)) @ b) (drop k (x # pre) @ post) = None"
    proof (intro allI impI)
      fix k assume k: "k < length (x # pre)"
      show "first_match re (rev (take k (x # pre)) @ b) (drop k (x # pre) @ post) = None"
      proof (cases k)
        case 0
        with None p(1) show ?thesis by simp
      next
        case (Suc j)
        with k p(3) show ?thesis by simp
      qed
    qed
    with p show ?thesis by (intro exI [of _ "x # pre"] exI [of _ post]) simp
  qed
qed

lemma scan_None:
  "scan re b r = None \<Longrightarrow> r = pre @ post \<Longrightarrow> first_match re (rev pre @ b) post = None"
proof (induction r arbitrary: b pre)
  case Nil
  then show ?case by simp
next
  case (Cons x xs)
  from Cons.prems(1) have f: "first_match re b (x # xs) = None" and s: "scan re (x # b) xs = None"
    by (auto split: option.splits)
  show ?case
  proof (cases pre)
    case Nil
    with Cons.prems(2) f show ?thesis by simp
  next
    case (Cons y ys)
    with Cons.prems(2) have "xs = ys @ post" "y = x" by auto
    with Cons.IH [OF s, of ys] Cons show ?thesis by simp
  qed
qed

lemma extract_amount_cases:
  "extract_amount t = Inr (None, None) \<and> search amount_re t = None
   \<or> (\<exists>m n. search amount_re t = Some m \<and> snd m 1 = Some n \<and> number_token n
        \<and> extract_amount t =
            Inr (Some (decimal_value n), Some (case snd m 2 of None \<Rightarrow> ''USD'' | Some c \<Rightarrow> c))
        \<and> (\<forall>c. snd m 2 = Some c \<longrightarrow> c \<noteq> [] \<and> lower c \<in> set currency_tokens))"
proof (cases "search amount_re t")
  case None
  then show ?thesis by (simp add: extract_amount_def)
next
  case (Some m)
  then have "scan amount_re [] t = Some m" by (simp add: search_def)
  from scan_Some [OF this] obtain pre post where "first_match amount_re (rev pre @ []) post = Some m"
    by blast
  from first_match_elem [OF this] obtain b' r' g' where
    e: "(b', r', g') \<in> set (ms amount_re (rev pre @ [], post, \<lambda>_. None))" and m: "snd m = g'"
    by auto
  from amount_re_elem [OF e] obtain n cur where n: "g' 1 = Some n" "number_token n"
    and c: "cur = [] \<and> g' 2 = None \<or> cur \<noteq> [] \<and> g' 2 = Some cur \<and> lower cur \<in> set currency_tokens"
    by blast
  from n m Some c show ?thesis
    by (auto simp: extract_amount_def py_float_number_token split: option.splits)
qed

lemma scan_not_None:
  "r = pre @ post \<Longrightarrow> first_match re (rev pre @ b) post \<noteq> None \<Longrightarrow> scan re b r \<noteq> None"
  using scan_None [of re b r pre post] by blast

lemma project_number_re_elem:
  assumes "(b', r', g') \<in> set (ms project_number_re (b, r, g))"
  shows "\<exists>pfx ds. r = pfx @ ds @ r' \<and> b' = rev (pfx @ ds) @ b \<and> list_all is_digit ds \<and> ds \<noteq> []"
proof -
  from assms have
    "\<exists>st0\<in>set (ms Bound (b, r, g)). \<exists>st1\<in>set (ms (Opt (Alt (lit ''PRJ-'') (lit ''P''))) st0).
       \<exists>st2\<in>set (ms (Rep is_digit 1 None) st1). (b', r', g') \<in> set (ms Bound st2)"
    by (simp only: project_number_re_def ms_Seq_elem)
  then obtain st0 st1 st2 where
    s0: "st0 \<in> set (ms Bound (b, r, g))" and
    s1: "st1 \<in> set (ms (Opt (Alt (lit ''PRJ-'') (lit ''P''))) st0)" and
    s2: "st2 \<in> set (ms (Rep is_digit 1 None) st1)" and
    s3: "(b', r', g') \<in> set (ms Bound st2)"
    by blast
  obtain b1 r1 g1 where st1: "st1 = (b1, r1, g1)" by (cases st1)
  from s0 have st0: "st0 = (b, r, g)"
    by (cases st0; simp add: ms_Bound_elem split: if_splits)
  from s3 have st2: "st2 = (b', r', g')"
    by (cases st2; simp split: if_splits)
  from s1 have "(b1, r1, g1) \<in> set (ms (Opt (Alt (lit ''PRJ-'') (lit ''P''))) (b, r, g))"
    unfolding st0 st1 .
  from ms_consumes [OF this] obtain pfx where pfx: "r = pfx @ r1" "b1 = rev pfx @ b" by blast
  from s2 have "(b', r', g') \<in> set (rep is_digit 1 None b1 r1 g1)"
    unfolding st1 st2 by simp
  from rep_elem [OF this] obtain ds where ds: "r1 = ds @ r'" "b' = rev ds @ b1"
    "list_all is_digit ds" "1 \<le> length ds" by auto
  then have "ds \<noteq> []" by auto
  with pfx ds show ?thesis by (intro exI [of _ pfx] exI [of _ ds]) simp
qed

lemma project_name_re_elem:
  assumes "(b', r', g') \<in> set (ms project_name_re (b, r, g))"
  shows "\<exists>skip n. r = skip @ n @ r' \<and> g' 1 = Some n \<and> n \<noteq> [] \<and> list_all name_char n"
proof -
  from assms have
    "\<exists>st1\<in>set (ms (Opt (Seq (lit_i ''project'') (Rep is_space 1 None))) (b, r, g)).
       (b', r', g') \<in> set (ms (Grp 1 (Rep name_char 1 None)) st1)"
    by (simp only: project_name_re_def ms_Seq_elem)
  then obtain st1 where
    s1: "st1 \<in> set (ms (Opt (Seq (lit_i ''project'') (Rep is_space 1 None))) (b, r, g))" and
    s2: "(b', r', g') \<in> set (ms (Grp 1 (Rep name_char 1 None)) st1)"
    by blast
  obtain b1 r1 g1 where st1: "st1 = (b1, r1, g1)" by (cases st1)
  from s1 have "(b1, r1, g1) \<in> set (ms (Opt (Seq (lit_i ''project'') (Rep is_space 1 None))) (b, r, g))"
    unfolding st1 .
  from ms_consumes [OF this] obtain skip where skip: "r = skip @ r1" "b1 = rev skip @ b" by blast
  from s2 have "(b', r', g') \<in> set (ms (Grp 1 (Rep name_char 1 None)) (b1, r1, g1))"
    unfolding st1 .
  then obtain g0 where m: "(b', r', g0) \<in> set (ms (Rep name_char 1 None) (b1, r1, g1))"
    and g': "g' = g0(1 := Some (consumed b1 b'))" unfolding ms_Grp_elem by blast
  from m have "(b', r', g0) \<in> set (rep name_char 1 None b1 r1 g1)" by simp
  from rep_elem [OF this] obtain n where n: "r1 = n @ r'" "b' = rev n @ b1"
    "list_all name_char n" "1 \<le> length n" by auto
  then have "n \<noteq> []" by auto
  moreover from g' n have "g' 1 = Some n" by (simp add: consumed_append)
  ultimately show ?thesis using skip n by (intro exI [of _ skip] exI [of _ n]) simp
qed

lemma project_name_re_matches:
  assumes "name_char x"
  shows "ms project_name_re (b, x # xs, g) \<noteq> []"
proof -
  have "rep name_char 1 None b (x # xs) g \<noteq> []"
    using assms by (simp add: rep_zero_nonempty)
  then have "ms (Grp 1 (Rep name_char 1 None)) (b, x # xs, g) \<noteq> []" by simp
  then obtain st where st: "st \<in> set (ms (Grp 1 (Rep name_char 1 None)) (b, x # xs, g))"
    by (meson last_in_set)
  have "(b, x # xs, g) \<in> set (ms (Opt (Seq (lit_i ''project'') (Rep is_space 1 None))) (b, x # xs, g))"
    unfolding ms_Opt_elem by simp
  with st have "st \<in> set (ms project_name_re (b, x # xs, g))"
    unfolding project_name_re_def ms_Seq_elem by blast
  then show ?thesis by auto
qed

lemma search_Some_elem:
  assumes "search re t = Some m"
  shows "\<exists>pre post b' r' g'. t = pre @ post \<and> (b', r', g') \<in> set (ms re (rev pre, post, \<lambda>_. None))
           \<and> m = (consumed (rev pre) b', g')
           \<and> (\<forall>k<length pre. first_match re (rev (take k t)) (drop k t) = None)"
proof -
  from assms have "scan re [] t = Some m" by (simp add: search_def)
  from scan_Some [OF this] obtain pre post where p: "t = pre @ post"
    "first_match re (rev pre @ []) post = Some m"
    "\<forall>k<length pre. first_match re (rev (take k pre) @ []) (drop k pre @ post) = None"
    by blast
  from first_match_elem [OF p(2)] obtain b' r' g' where
    e: "(b', r', g') \<in> set (ms re (rev pre @ [], post, \<lambda>_. None))" "m = (consumed (rev pre @ []) b', g')"
    by blast
  from p(1,3) have "\<forall>k<length pre. first_match re (rev (take k t)) (drop k t) = None" by simp
  with p(1) e show ?thesis
    by (intro exI [of _ pre] exI [of _ post] exI [of _ b'] exI [of _ r'] exI [of _ g']) simp
qed

lemma name_match_has_name_char:
  assumes "search project_name_re t = Some m"
  shows "\<exists>n. snd m 1 = Some n \<and> n \<noteq> [] \<and> list_all name_char n \<and> set n \<subseteq> set t"
proof -
  from search_Some_elem [OF assms] obtain pre post b' r' g' where p: "t = pre @ post"
    "(b', r', g') \<in> set (ms project_name_re (rev pre, post, \<lambda>_. None))" "m = (consumed (rev pre) b', g')"
    by blast
  from project_name_re_elem [OF p(2)] obtain skip n where "post = skip @ n @ r'" "g' 1 = Some n"
    "n \<noteq> []" "list_all name_char n" by blast
  with p(1,3) show ?thesis by auto
qed

lemma name_char_gives_match:
  assumes "x \<in> set t" and "name_char x"
  shows "search project_name_re t \<noteq> None"
proof -
  from assms(1) obtain pre post where t: "t = pre @ x # post" by (auto simp: in_set_conv_decomp)
  from project_name_re_matches [OF assms(2)]
  have "first_match project_name_re (rev pre @ []) (x # post) \<noteq> None"
    by (simp add: first_match_None)
  from scan_not_None [OF t this] show ?thesis by (simp add: search_def)
qed

lemma number_match_has_digit:
  assumes "search project_number_re t = Some m"
  shows "fst m \<noteq> [] \<and> (\<exists>d\<in>set t. is_digit d)"
proof -
  from search_Some_elem [OF assms] obtain pre post b' r' g' where p: "t = pre @ post"
    "(b', r', g') \<in> set (ms project_number_re (rev pre, post, \<lambda>_. None))" "m = (consumed (rev pre) b', g')"
    by blast
  from project_number_re_elem [OF p(2)] obtain pfx ds where d: "post = pfx @ ds @ r'"
    "b' = rev (pfx @ ds) @ rev pre" "list_all is_digit ds" "ds \<noteq> []" by blast
  from d(2) have "consumed (rev pre) b' = pfx @ ds" by (simp add: consumed_def)
  with p(3) d(4) have "fst m \<noteq> []" by simp
  moreover from d(4) obtain x where "x \<in> set ds" by (cases ds) auto
  with d(1,3) p(1) have "\<exists>d\<in>set t. is_digit d" by (auto simp: list_all_iff)
  ultimately show ?thesis by simp
qed




lemma number_token_has_digit: "number_token n \<Longrightarrow> \<exists>d\<in>set n. is_digit d"
  by (cases n) (auto simp: number_token_def split: if_splits)

lemma amount_match_has_digit:
  assumes "search amount_re t = Some m"
  shows "\<exists>d\<in>set t. is_digit d"
proof -
  from search_Some_elem [OF assms] obtain pre post b' r' g' where p: "t = pre @ post"
    "(b', r', g') \<in> set (ms amount_re (rev pre, post, \<lambda>_. None))" by blast
  from amount_re_elem [OF p(2)] obtain n ws cur where "post = n @ ws @ cur @ r'" "number_token n"
    by blast
  with number_token_has_digit [of n] p(1) show ?thesis by auto
qed

lemma project_name_None: "fst (extract_project_info t) = None \<longleftrightarrow> \<not> list_ex name_char t"
proof (cases "search project_name_re t")
  case None
  with name_char_gives_match [of _ t] have "\<not> list_ex name_char t"
    by (auto simp: list_ex_iff)
  with None show ?thesis by (simp add: extract_project_info_def)
next
  case (Some m)
  from name_match_has_name_char [OF Some] obtain n where n: "snd m 1 = Some n" "n \<noteq> []"
    "list_all name_char n" "set n \<subseteq> set t" by blast
  then obtain x where "x \<in> set n" by (cases n) auto
  with n have "list_ex name_char t" by (auto simp: list_ex_iff list_all_iff)
  with Some n(1) show ?thesis by (simp add: extract_project_info_def)
qed

lemma project_number_None:
  "snd (extract_project_info t) = None \<longleftrightarrow> search project_number_re t = None"
  by (simp add: extract_project_info_def split: option.splits)

section \<open>The turns of the dialogue, case by case\<close>

lemmas turn_defs = process_request_with_def add_message_def transcript_def cur_request_def
  cur_stage_def save_request_def display_summary_def Let_def

lemma turn_absorbed:
  assumes "affirmative (lower u)" and "cur_stage w \<noteq> ''confirm''"
  shows "\<exists>w'. process_request_with xp xa e w u = Inr w'
           \<and> cur_stage w' = cur_stage w \<and> cur_request w' = cur_request w \<and> db w' = db w
           \<and> transcript w' = transcript w @ [\<lparr>m_text = Said u, m_sender = ''user''\<rparr>]"
  using assms by (cases "stage w"; cases "request w") (simp_all add: turn_defs)

lemma turn_submitted:
  assumes "affirmative (lower u)" and "cur_stage w = ''confirm''" and "db_ok e"
  shows "\<exists>w'. process_request_with xp xa e w u = Inr w'
           \<and> cur_stage w' = ''project'' \<and> cur_request w' = empty_request
           \<and> db w' = db w @
                [\<lparr>row_project_name = project_name (cur_request w),
                  row_project_number = project_number (cur_request w),
                  row_amount = amount (cur_request w), row_currency = currency (cur_request w),
                  row_reason = reason (cur_request w),
                  row_timestamp = now e, row_status = ''Pending''\<rparr>]
           \<and> transcript w' = []"
  using assms by (cases "stage w"; cases "request w") (simp_all add: turn_defs)

lemma turn_store_failed:
  assumes "affirmative (lower u)" and "cur_stage w = ''confirm''" and "\<not> db_ok e"
  shows "\<exists>w'. process_request_with xp xa e w u = Inl (DatabaseError, w')
           \<and> cur_stage w' = ''confirm'' \<and> cur_request w' = cur_request w \<and> db w' = db w
           \<and> transcript w' = transcript w @ [\<lparr>m_text = Said u, m_sender = ''user''\<rparr>]"
  using assms by (cases "stage w"; cases "request w") (simp_all add: turn_defs)

lemma turn_project_found:
  assumes "\<not> affirmative (lower u)" and "cur_stage w = ''project''"
    and "xp (lower u) = (name, Some number)" and "number \<noteq> []"
  shows "\<exists>w'. process_request_with xp xa e w u = Inr w'
           \<and> cur_stage w' = ''amount''
           \<and> cur_request w' = (cur_request w)\<lparr>project_name := Some (or_default name ''Unnamed Project''),
                                               project_number := Some number\<rparr>
           \<and> db w' = db w
           \<and> transcript w' = transcript w @ [\<lparr>m_text = Said u, m_sender = ''user''\<rparr>,
                 \<lparr>m_text = Project_Info (or_default name ''Unnamed Project'') number,
                   m_sender = ''assistant''\<rparr>,
                 \<lparr>m_text = Ask_Amount, m_sender = ''assistant''\<rparr>]"
  using assms by (cases "stage w"; cases "request w") (simp_all add: turn_defs)

lemma turn_project_missing:
  assumes "\<not> affirmative (lower u)" and "cur_stage w = ''project''"
    and "xp (lower u) = (name, number)" and "number = None \<or> number = Some []"
  shows "\<exists>w'. process_request_with xp xa e w u = Inr w'
           \<and> cur_stage w' = ''project'' \<and> cur_request w' = cur_request w \<and> db w' = db w
           \<and> transcript w' = transcript w @ [\<lparr>m_text = Said u, m_sender = ''user''\<rparr>,
                 \<lparr>m_text = No_Project_Number, m_sender = ''assistant''\<rparr>]"
  using assms by (cases "stage w"; cases "request w") (auto simp: turn_defs)

lemma turn_amount_found:
  assumes "\<not> affirmative (lower u)" and "cur_stage w = ''amount''"
    and "xa (lower u) = Inr (Some a, c)" and "a \<noteq> 0"
  shows "\<exists>w'. process_request_with xp xa e w u = Inr w'
           \<and> cur_stage w' = ''reason''
           \<and> cur_request w' = (cur_request w)\<lparr>amount := Some a, currency := c\<rparr>
           \<and> db w' = db w
           \<and> transcript w' = transcript w @ [\<lparr>m_text = Said u, m_sender = ''user''\<rparr>,
                 \<lparr>m_text = Amount_Received a c, m_sender = ''assistant''\<rparr>,
                 \<lparr>m_text = Ask_Reason, m_sender = ''assistant''\<rparr>]"
  using assms by (cases "stage w"; cases "request w") (simp_all add: turn_defs)

lemma turn_amount_missing:
  assumes "\<not> affirmative (lower u)" and "cur_stage w = ''amount''"
    and "xa (lower u) = Inr (a, c)" and "a = None \<or> a = Some 0"
  shows "\<exists>w'. process_request_with xp xa e w u = Inr w'
           \<and> cur_stage w' = ''amount'' \<and> cur_request w' = cur_request w \<and> db w' = db w
           \<and> transcript w' = transcript w @ [\<lparr>m_text = Said u, m_sender = ''user''\<rparr>,
                 \<lparr>m_text = No_Amount, m_sender = ''assistant''\<rparr>]"
  using assms by (cases "stage w"; cases "request w") (auto simp: turn_defs)

lemma turn_amount_raised:
  assumes "\<not> affirmative (lower u)" and "cur_stage w = ''amount''"
    and "xa (lower u) = Inl err"
  shows "\<exists>w'. process_request_with xp xa e w u = Inl (err, w')
           \<and> cur_stage w' = ''amount'' \<and> cur_request w' = cur_request w \<and> db w' = db w"
  using assms by (cases "stage w"; cases "request w") (simp_all add: turn_defs)

lemma turn_reason_given:
  assumes "\<not> affirmative (lower u)" and "cur_stage w = ''reason''"
    and "3 \<le> length (split (lower u))"
  shows "\<exists>w'. process_request_with xp xa e w u = Inr w'
           \<and> cur_stage w' = ''confirm''
           \<and> cur_request w' = (cur_request w)\<lparr>reason := Some (lower u)\<rparr>
           \<and> db w' = db w
           \<and> transcript w' = transcript w @ [\<lparr>m_text = Said u, m_sender = ''user''\<rparr>,
                 \<lparr>m_text = Summary (project_name (cur_request w)) (project_number (cur_request w))
                     (amount (cur_request w)) (currency (cur_request w)) (Some (lower u)),
                   m_sender = ''assistant''\<rparr>]"
  using assms by (cases "stage w"; cases "request w") (simp_all add: turn_defs)

lemma turn_reason_short:
  assumes "\<not> affirmative (lower u)" and "cur_stage w = ''reason''"
    and "length (split (lower u)) < 3"
  shows "\<exists>w'. process_request_with xp xa e w u = Inr w'
           \<and> cur_stage w' = ''reason'' \<and> cur_request w' = cur_request w \<and> db w' = db w
           \<and> transcript w' = transcript w @ [\<lparr>m_text = Said u, m_sender = ''user''\<rparr>,
                 \<lparr>m_text = Reason_Too_Short, m_sender = ''assistant''\<rparr>]"
  using assms by (cases "stage w"; cases "request w") (simp_all add: turn_defs)

lemma turn_cancelled:
  assumes "cur_stage w = ''confirm''" and "lower u = ''no'' \<or> lower u = ''cancel''"
  shows "\<exists>w'. process_request_with xp xa e w u = Inr w'
           \<and> cur_stage w' = ''project'' \<and> cur_request w' = empty_request \<and> db w' = db w
           \<and> transcript w' = transcript w @ [\<lparr>m_text = Said u, m_sender = ''user''\<rparr>,
                 \<lparr>m_text = Cancelled, m_sender = ''assistant''\<rparr>]"
  using assms not_affirmative_no
  by (cases "stage w"; cases "request w") (auto simp: turn_defs lower_no)

lemma turn_confirm_other:
  assumes "\<not> affirmative (lower u)" and "cur_stage w = ''confirm''"
    and "lower u \<noteq> ''no''" and "lower u \<noteq> ''cancel''"
  shows "\<exists>w'. process_request_with xp xa e w u = Inr w'
           \<and> cur_stage w' = ''confirm'' \<and> cur_request w' = cur_request w \<and> db w' = db w
           \<and> transcript w' = transcript w @ [\<lparr>m_text = Said u, m_sender = ''user''\<rparr>,
                 \<lparr>m_text = Confirm_Yes_No, m_sender = ''assistant''\<rparr>]"
  using assms by (cases "stage w"; cases "request w") (simp_all add: turn_defs lower_idem)

lemma after_turn_Inr: "process_request e w u = Inr w' \<Longrightarrow> after_turn e w u = w'"
  by (simp add: after_turn_def)

lemma after_turn_Inl: "process_request e w u = Inl (err, w') \<Longrightarrow> after_turn e w u = w'"
  by (simp add: after_turn_def)

lemma after_turn_affirmative:
  assumes "affirmative (lower u)"
  shows "cur_stage w \<noteq> ''confirm'' \<Longrightarrow>
           cur_stage (after_turn e w u) = cur_stage w \<and> cur_request (after_turn e w u) = cur_request w"
    and "cur_stage w = ''confirm'' \<Longrightarrow> \<not> db_ok e \<Longrightarrow>
           cur_stage (after_turn e w u) = cur_stage w \<and> cur_request (after_turn e w u) = cur_request w"
    and "cur_stage w = ''confirm'' \<Longrightarrow> db_ok e \<Longrightarrow>
           cur_stage (after_turn e w u) = ''project'' \<and> cur_request (after_turn e w u) = empty_request"
  using turn_absorbed [OF assms, of w extract_project_info extract_amount e]
    turn_store_failed [OF assms, of w e extract_project_info extract_amount]
    turn_submitted [OF assms, of w e extract_project_info extract_amount]
  unfolding process_request_def [symmetric]
  by (auto dest: after_turn_Inr after_turn_Inl)

lemma after_turn_project:
  assumes "\<not> affirmative (lower u)" and "cur_stage w = ''project''"
  shows "(cur_stage (after_turn e w u) = ''project'' \<and> cur_request (after_turn e w u) = cur_request w)
       \<or> (\<exists>n p. cur_stage (after_turn e w u) = ''amount''
            \<and> cur_request (after_turn e w u) = (cur_request w)\<lparr>project_name := Some n, project_number := Some p\<rparr>)"
proof -
  obtain name number where x: "extract_project_info (lower u) = (name, number)"
    by (cases "extract_project_info (lower u)")
  show ?thesis
  proof (cases "number = None \<or> number = Some []")
    case True
    from turn_project_missing [where xp = extract_project_info and xa = extract_amount and e = e, OF assms x True] show ?thesis
      unfolding process_request_def [symmetric] by (auto dest: after_turn_Inr)
  next
    case False
    then obtain p where p: "number = Some p" "p \<noteq> []" by auto
    from turn_project_found [where xp = extract_project_info and xa = extract_amount and e = e, OF assms x [unfolded p(1)] p(2)] show ?thesis
      unfolding process_request_def [symmetric] by (auto dest: after_turn_Inr)
  qed
qed

lemma after_turn_amount:
  assumes "\<not> affirmative (lower u)" and "cur_stage w = ''amount''"
  shows "(cur_stage (after_turn e w u) = ''amount'' \<and> cur_request (after_turn e w u) = cur_request w)
       \<or> (\<exists>a c. cur_stage (after_turn e w u) = ''reason''
            \<and> cur_request (after_turn e w u) = (cur_request w)\<lparr>amount := Some a, currency := c\<rparr>)"
proof (cases "extract_amount (lower u)")
  case (Inl err)
  from turn_amount_raised [where xp = extract_project_info and xa = extract_amount and e = e, OF assms Inl] show ?thesis
    unfolding process_request_def [symmetric] by (auto dest: after_turn_Inl)
next
  case (Inr ac)
  then obtain a c where x: "extract_amount (lower u) = Inr (a, c)" by (cases ac) auto
  show ?thesis
  proof (cases "a = None \<or> a = Some 0")
    case True
    from turn_amount_missing [where xp = extract_project_info and xa = extract_amount and e = e, OF assms x True] show ?thesis
      unfolding process_request_def [symmetric] by (auto dest: after_turn_Inr)
  next
    case False
    then obtain v where v: "a = Some v" "v \<noteq> 0" by auto
    from turn_amount_found [where xp = extract_project_info and xa = extract_amount and e = e, OF assms x [unfolded v(1)] v(2)] show ?thesis
      unfolding process_request_def [symmetric] by (auto dest: after_turn_Inr)
  qed
qed

lemma after_turn_reason:
  assumes "\<not> affirmative (lower u)" and "cur_stage w = ''reason''"
  shows "(cur_stage (after_turn e w u) = ''reason'' \<and> cur_request (after_turn e w u) = cur_request w)
       \<or> (cur_stage (after_turn e w u) = ''confirm''
            \<and> cur_request (after_turn e w u) = (cur_request w)\<lparr>reason := Some (lower u)\<rparr>)"
proof (cases "3 \<le> length (split (lower u))")
  case True
  from turn_reason_given [OF assms True, of extract_project_info extract_amount e] show ?thesis
    unfolding process_request_def [symmetric] by (auto dest: after_turn_Inr)
next
  case False
  then have "length (split (lower u)) < 3" by simp
  from turn_reason_short [OF assms this, of extract_project_info extract_amount e] show ?thesis
    unfolding process_request_def [symmetric] by (auto dest: after_turn_Inr)
qed

lemma after_turn_confirm:
  assumes "\<not> affirmative (lower u)" and "cur_stage w = ''confirm''"
  shows "(cur_stage (after_turn e w u) = ''confirm'' \<and> cur_request (after_turn e w u) = cur_request w)
       \<or> (cur_stage (after_turn e w u) = ''project'' \<and> cur_request (after_turn e w u) = empty_request
            \<and> (lower u = ''no'' \<or> lower u = ''cancel''))"
proof (cases "lower u = ''no'' \<or> lower u = ''cancel''")
  case True
  from turn_cancelled [OF assms(2) True, of extract_project_info extract_amount e] True show ?thesis
    unfolding process_request_def [symmetric] by (auto dest: after_turn_Inr)
next
  case False
  then have "lower u \<noteq> ''no''" "lower u \<noteq> ''cancel''" by auto
  from turn_confirm_other [OF assms this, of extract_project_info extract_amount e] show ?thesis
    unfolding process_request_def [symmetric] by (auto dest: after_turn_Inr)
qed

lemma stage_inv_at:
  "cur_stage w = ''project'' \<Longrightarrow> stage_inv w \<longleftrightarrow> cur_request w = empty_request"
  "cur_stage w = ''amount'' \<Longrightarrow> stage_inv w \<longleftrightarrow>
     (project_name (cur_request w) \<noteq> None \<and> project_number (cur_request w) \<noteq> None
      \<and> amount (cur_request w) = None \<and> currency (cur_request w) = None
      \<and> reason (cur_request w) = None)"
  "cur_stage w = ''reason'' \<Longrightarrow> stage_inv w \<longleftrightarrow>
     (project_name (cur_request w) \<noteq> None \<and> project_number (cur_request w) \<noteq> None
      \<and> amount (cur_request w) \<noteq> None \<and> reason (cur_request w) = None)"
  "cur_stage w = ''confirm'' \<Longrightarrow> stage_inv w \<longleftrightarrow>
     (project_name (cur_request w) \<noteq> None \<and> project_number (cur_request w) \<noteq> None
      \<and> amount (cur_request w) \<noteq> None \<and> reason (cur_request w) \<noteq> None)"
  by (simp_all add: stage_inv_def)

lemma stage_inv_cases:
  assumes "stage_inv w"
  obtains "cur_stage w = ''project''" | "cur_stage w = ''amount''" | "cur_stage w = ''reason''"
    | "cur_stage w = ''confirm''"
  using assms unfolding stage_inv_def by blast

lemma stage_inv_step:
  assumes "stage_inv w"
  shows "stage_inv (after_turn e w u)"
proof (cases "affirmative (lower u)")
  case True
  show ?thesis
  proof (cases "cur_stage w = ''confirm''")
    case False
    with after_turn_affirmative(1) [OF True False, of e] assms show ?thesis
      by (simp add: stage_inv_def)
  next
    case c: True
    show ?thesis
    proof (cases "db_ok e")
      case True
      with after_turn_affirmative(3) [OF \<open>affirmative (lower u)\<close> c] show ?thesis
        by (simp add: stage_inv_at)
    next
      case False
      with after_turn_affirmative(2) [OF \<open>affirmative (lower u)\<close> c] assms show ?thesis
        by (simp add: stage_inv_def)
    qed
  qed
next
  case False
  from assms show ?thesis
  proof (cases rule: stage_inv_cases)
    case 1
    with assms have "cur_request w = empty_request" by (simp add: stage_inv_at)
    with after_turn_project [OF False 1, of e] show ?thesis
      by (auto simp: stage_inv_at empty_request_def)
  next
    case 2
    with assms have "project_name (cur_request w) \<noteq> None \<and> project_number (cur_request w) \<noteq> None
      \<and> amount (cur_request w) = None \<and> currency (cur_request w) = None
      \<and> reason (cur_request w) = None" by (simp add: stage_inv_at)
    with after_turn_amount [OF False 2, of e] show ?thesis
      by (auto simp: stage_inv_at)
  next
    case 3
    with assms have "project_name (cur_request w) \<noteq> None \<and> project_number (cur_request w) \<noteq> None
      \<and> amount (cur_request w) \<noteq> None \<and> reason (cur_request w) = None" by (simp add: stage_inv_at)
    with after_turn_reason [OF False 3, of e] show ?thesis
      by (auto simp: stage_inv_at)
  next
    case 4
    with assms have "project_name (cur_request w) \<noteq> None \<and> project_number (cur_request w) \<noteq> None
      \<and> amount (cur_request w) \<noteq> None \<and> reason (cur_request w) \<noteq> None" by (simp add: stage_inv_at)
    with after_turn_confirm [OF False 4, of e] show ?thesis
      by (auto simp: stage_inv_at)
  qed
qed

lemma stage_inv_initial: "stage_inv (initial_world rows)"
  by (simp add: stage_inv_def initial_world_def cur_stage_def cur_request_def)

lemma stage_inv_run: "stage_inv w \<Longrightarrow> stage_inv (run w turns)"
  by (induction w turns rule: run.induct) (simp_all add: stage_inv_step)

lemma stage_inv_fields_in_order: "stage_inv w \<Longrightarrow> fields_in_order (cur_request w)"
  by (auto simp: stage_inv_def Let_def fields_in_order_def empty_request_def)

lemma keeps_set_fields_refl: "keeps_set_fields r r"
  by (simp add: keeps_set_fields_def)

lemma stage_inv_keeps:
  assumes "stage_inv w"
  shows "keeps_set_fields (cur_request w) (cur_request (after_turn e w u))
       \<or> (cur_request (after_turn e w u) = empty_request \<and> cur_stage w = ''confirm''
            \<and> (affirmative (lower u) \<or> lower u = ''no'' \<or> lower u = ''cancel''))"
proof (cases "affirmative (lower u)")
  case True
  show ?thesis
  proof (cases "cur_stage w = ''confirm''")
    case False
    with after_turn_affirmative(1) [OF True False, of e] show ?thesis
      by (simp add: keeps_set_fields_refl)
  next
    case c: True
    show ?thesis
    proof (cases "db_ok e")
      case True
      with after_turn_affirmative(3) [OF \<open>affirmative (lower u)\<close> c] c \<open>affirmative (lower u)\<close>
      show ?thesis by simp
    next
      case False
      with after_turn_affirmative(2) [OF \<open>affirmative (lower u)\<close> c] show ?thesis
        by (simp add: keeps_set_fields_refl)
    qed
  qed
next
  case False
  from assms show ?thesis
  proof (cases rule: stage_inv_cases)
    case 1
    with after_turn_project [OF False 1, of e] assms show ?thesis
      by (auto simp: stage_inv_def Let_def empty_request_def keeps_set_fields_def)
  next
    case 2
    with after_turn_amount [OF False 2, of e] assms show ?thesis
      by (auto simp: stage_inv_def Let_def keeps_set_fields_def)
  next
    case 3
    with after_turn_reason [OF False 3, of e] assms show ?thesis
      by (auto simp: stage_inv_def Let_def keeps_set_fields_def)
  next
    case 4
    with after_turn_confirm [OF False 4, of e] show ?thesis
      by (auto simp: keeps_set_fields_refl)
  qed
qed

section \<open>The claims\<close>

text \<open>
  Claim C1, at the input where the code departs from it. In stage \<open>confirm\<close> the utterance
  "yes" inserts the request into the table as a row with status "Pending", sets the stage
  to \<open>project\<close> and empties the request; the two messages of success are appended and the
  assignment \<open>messages = []\<close> that follows them removes them again, so the transcript the
  turn leaves is empty and holds neither the success message nor the prompt.
\<close>

theorem C1_submission_leaves_transcript_empty:
  "stage at_confirm = Some ''confirm'' \<and> affirmative (lower ''yes'')
   \<and> process_request env_ok at_confirm ''yes'' =
       Inr \<lparr>messages = Some [], stage = Some ''project'', request = Some empty_request,
            db = [\<lparr>row_project_name = Some ''4021'', row_project_number = Some ''4021'',
                   row_amount = Some 300, row_currency = Some ''usd'',
                   row_reason = Some ''client dinner with partners'',
                   row_timestamp = 7, row_status = ''Pending''\<rparr>]\<rparr>"
  unfolding at_confirm_eq by code_simp

text \<open>
  Claim C2. When the stage is not \<open>confirm\<close> and the lower-cased utterance contains an
  affirmative token, the turn returns normally with the stage, the request and the table
  as they were, and the transcript longer by the user's utterance only: no message of the
  assistant. The state it leaves is the same whatever the two extractors are, so the turn
  does not depend on any extraction.
\<close>

theorem C2_affirmative_absorbed:
  assumes "affirmative (lower u)" and "cur_stage w \<noteq> ''confirm''"
  shows "\<exists>w'. (\<forall>xp xa. process_request_with xp xa e w u = Inr w')
           \<and> process_request e w u = Inr w'
           \<and> cur_stage w' = cur_stage w \<and> cur_request w' = cur_request w \<and> db w' = db w
           \<and> transcript w' = transcript w @ [\<lparr>m_text = Said u, m_sender = ''user''\<rparr>]"
  using assms by (simp add: turn_defs process_request_def split: option.splits)

theorem C2_affirmative_absorbed_witness:
  "affirmative (lower ''yes'') \<and> cur_stage at_amount \<noteq> ''confirm''
   \<and> (\<exists>w'. (\<forall>xp xa. process_request_with xp xa env_ok at_amount ''yes'' = Inr w')
           \<and> process_request env_ok at_amount ''yes'' = Inr w'
           \<and> cur_stage w' = cur_stage at_amount \<and> cur_request w' = cur_request at_amount
           \<and> db w' = db at_amount
           \<and> transcript w' = transcript at_amount @ [\<lparr>m_text = Said ''yes'', m_sender = ''user''\<rparr>])"
proof -
  have h1: "affirmative (lower ''yes'')" by code_simp
  have h2: "cur_stage at_amount \<noteq> ''confirm''" unfolding at_amount_eq by code_simp
  from h1 h2 C2_affirmative_absorbed [OF h1 h2] show ?thesis by (intro conjI)
qed

text \<open>
  Claim C3. In every state that a sequence of turns reaches from the start of a
  conversation, whatever the utterances, the clock and the answers of the store were: the
  amount is set only if the project number is, and the reason only if the amount is; and
  one more turn either keeps every field that is set as it is, or leaves the empty
  request, which happens only in stage \<open>confirm\<close> on an affirmative utterance (the
  submission) or on "no" or "cancel" (the cancellation).
\<close>

theorem C3_fields_in_order:
  "fields_in_order (cur_request (run (initial_world rows) turns))
   \<and> (keeps_set_fields (cur_request (run (initial_world rows) turns))
         (cur_request (after_turn e (run (initial_world rows) turns) u))
      \<or> (cur_request (after_turn e (run (initial_world rows) turns) u) = empty_request
           \<and> cur_stage (run (initial_world rows) turns) = ''confirm''
           \<and> (affirmative (lower u) \<or> lower u = ''no'' \<or> lower u = ''cancel'')))"
  using stage_inv_run [OF stage_inv_initial, of rows turns]
  by (simp add: stage_inv_fields_in_order stage_inv_keeps)

theorem C3_fields_in_order_witness:
  "amount (cur_request (run (initial_world [])
       [(env_ok, ''project 4021''), (env_ok, ''300 USD''), (env_ok, ''Client dinner with partners'')]))
     \<noteq> None
   \<and> project_number (cur_request (run (initial_world [])
       [(env_ok, ''project 4021''), (env_ok, ''300 USD''), (env_ok, ''Client dinner with partners'')]))
     \<noteq> None
   \<and> cur_request (after_turn env_ok (run (initial_world [])
       [(env_ok, ''project 4021''), (env_ok, ''300 USD''), (env_ok, ''Client dinner with partners'')])
       ''yes'') = empty_request
   \<and> cur_stage (run (initial_world [])
       [(env_ok, ''project 4021''), (env_ok, ''300 USD''), (env_ok, ''Client dinner with partners'')])
     = ''confirm''"
proof -
  define W where "W = run (initial_world [])
       [(env_ok, ''project 4021''), (env_ok, ''300 USD''), (env_ok, ''Client dinner with partners'')]"
  define W' where "W' = after_turn env_ok W ''yes''"
  define c where "c = ''confirm''"
  define y where "y = ''yes''"
  have a: "amount (cur_request W) \<noteq> None"
    unfolding W_def run_three_turns at_confirm_eq by code_simp
  have nk: "\<not> keeps_set_fields (cur_request W) (cur_request W')"
    unfolding W'_def W_def run_three_turns at_confirm_eq by code_simp
  have th: "fields_in_order (cur_request W)
     \<and> (keeps_set_fields (cur_request W) (cur_request W')
        \<or> (cur_request W' = empty_request \<and> cur_stage W = c
             \<and> (affirmative (lower y) \<or> lower y = ''no'' \<or> lower y = ''cancel'')))"
    unfolding W_def W'_def c_def y_def by (rule C3_fields_in_order)
  from th a have p: "project_number (cur_request W) \<noteq> None"
    by (simp add: fields_in_order_def)
  from th nk have r: "cur_request W' = empty_request \<and> cur_stage W = c" by blast
  from a p r have "amount (cur_request W) \<noteq> None \<and> project_number (cur_request W) \<noteq> None
    \<and> cur_request W' = empty_request \<and> cur_stage W = c" by simp
  then show ?thesis unfolding W_def W'_def c_def .
qed



text \<open>
  Claim C5, as amended. In stage \<open>amount\<close>, on an utterance without an affirmative token,
  \<open>extract_amount\<close> returns normally; when it finds an amount that is not zero, the turn
  stores the amount and the currency, moves to stage \<open>reason\<close> and appends the
  confirmation and the question for the reason; when it finds no amount, or the amount
  zero, the turn appends the re-prompt and leaves the stage, the request and the table as
  they were.
\<close>

theorem C5_amount_stage:
  assumes "cur_stage w = ''amount''" and "\<not> affirmative (lower u)"
  shows "(\<exists>a c. extract_amount (lower u) = Inr (a, c))
       \<and> (\<forall>a c. extract_amount (lower u) = Inr (Some a, c) \<and> a \<noteq> 0 \<longrightarrow>
            (\<exists>w'. process_request e w u = Inr w' \<and> cur_stage w' = ''reason''
               \<and> cur_request w' = (cur_request w)\<lparr>amount := Some a, currency := c\<rparr>
               \<and> db w' = db w
               \<and> transcript w' = transcript w @ [\<lparr>m_text = Said u, m_sender = ''user''\<rparr>,
                     \<lparr>m_text = Amount_Received a c, m_sender = ''assistant''\<rparr>,
                     \<lparr>m_text = Ask_Reason, m_sender = ''assistant''\<rparr>]))
       \<and> (\<forall>a c. extract_amount (lower u) = Inr (a, c) \<and> (a = None \<or> a = Some 0) \<longrightarrow>
            (\<exists>w'. process_request e w u = Inr w' \<and> cur_stage w' = ''amount''
               \<and> cur_request w' = cur_request w \<and> db w' = db w
               \<and> transcript w' = transcript w @ [\<lparr>m_text = Said u, m_sender = ''user''\<rparr>,
                     \<lparr>m_text = No_Amount, m_sender = ''assistant''\<rparr>]))"
proof (intro conjI allI impI)
  show "\<exists>a c. extract_amount (lower u) = Inr (a, c)"
    using extract_amount_cases [of "lower u"] by auto
next
  fix a c
  assume "extract_amount (lower u) = Inr (Some a, c) \<and> a \<noteq> 0"
  then have x: "extract_amount (lower u) = Inr (Some a, c)" and nz: "a \<noteq> 0" by simp_all
  from turn_amount_found [where xp = extract_project_info and xa = extract_amount and e = e,
      OF assms(2,1) x nz]
  show "\<exists>w'. process_request e w u = Inr w' \<and> cur_stage w' = ''reason''
               \<and> cur_request w' = (cur_request w)\<lparr>amount := Some a, currency := c\<rparr>
               \<and> db w' = db w
               \<and> transcript w' = transcript w @ [\<lparr>m_text = Said u, m_sender = ''user''\<rparr>,
                     \<lparr>m_text = Amount_Received a c, m_sender = ''assistant''\<rparr>,
                     \<lparr>m_text = Ask_Reason, m_sender = ''assistant''\<rparr>]"
    unfolding process_request_def [symmetric] .
next
  fix a c
  assume "extract_amount (lower u) = Inr (a, c) \<and> (a = None \<or> a = Some 0)"
  then have x: "extract_amount (lower u) = Inr (a, c)" and z: "a = None \<or> a = Some 0" by simp_all
  from turn_amount_missing [where xp = extract_project_info and xa = extract_amount and e = e,
      OF assms(2,1) x z]
  show "\<exists>w'. process_request e w u = Inr w' \<and> cur_stage w' = ''amount''
               \<and> cur_request w' = cur_request w \<and> db w' = db w
               \<and> transcript w' = transcript w @ [\<lparr>m_text = Said u, m_sender = ''user''\<rparr>,
                     \<lparr>m_text = No_Amount, m_sender = ''assistant''\<rparr>]"
    unfolding process_request_def [symmetric] .
qed

theorem C5_amount_stage_witness:
  "cur_stage at_amount = ''amount'' \<and> \<not> affirmative (lower ''300 USD'')
   \<and> extract_amount (lower ''300 USD'') = Inr (Some 300, Some ''usd'')
   \<and> (\<exists>w'. process_request env_ok at_amount ''300 USD'' = Inr w' \<and> cur_stage w' = ''reason''
          \<and> cur_request w' = (cur_request at_amount)\<lparr>amount := Some 300, currency := Some ''usd''\<rparr>
          \<and> db w' = db at_amount)
   \<and> extract_amount (lower ''about ten'') = Inr (None, None)
   \<and> (\<exists>w'. process_request env_ok at_amount ''about ten'' = Inr w' \<and> cur_stage w' = ''amount''
          \<and> cur_request w' = cur_request at_amount \<and> db w' = db at_amount)"
proof -
  define u where "u = ''300 USD''"
  define v where "v = ''about ten''"
  define c where "c = ''usd''"
  have h1: "cur_stage at_amount = ''amount''" unfolding at_amount_eq by code_simp
  have h2: "\<not> affirmative (lower u)" unfolding u_def by code_simp
  have h3: "\<not> affirmative (lower v)" unfolding v_def by code_simp
  have x1: "extract_amount (lower u) = Inr (Some 300, Some c)" unfolding u_def c_def by code_simp
  have x2: "extract_amount (lower v) = Inr (None, None)" unfolding v_def by code_simp
  from C5_amount_stage [OF h1 h2, of env_ok] x1
  have r1: "\<exists>w'. process_request env_ok at_amount u = Inr w' \<and> cur_stage w' = ''reason''
          \<and> cur_request w' = (cur_request at_amount)\<lparr>amount := Some 300, currency := Some c\<rparr>
          \<and> db w' = db at_amount" by auto
  from C5_amount_stage [OF h1 h3, of env_ok] x2
  have r2: "\<exists>w'. process_request env_ok at_amount v = Inr w' \<and> cur_stage w' = ''amount''
          \<and> cur_request w' = cur_request at_amount \<and> db w' = db at_amount" by auto
  from h1 h2 x1 r1 x2 r2 have "cur_stage at_amount = ''amount'' \<and> \<not> affirmative (lower u)
   \<and> extract_amount (lower u) = Inr (Some 300, Some c)
   \<and> (\<exists>w'. process_request env_ok at_amount u = Inr w' \<and> cur_stage w' = ''reason''
          \<and> cur_request w' = (cur_request at_amount)\<lparr>amount := Some 300, currency := Some c\<rparr>
          \<and> db w' = db at_amount)
   \<and> extract_amount (lower v) = Inr (None, None)
   \<and> (\<exists>w'. process_request env_ok at_amount v = Inr w' \<and> cur_stage w' = ''amount''
          \<and> cur_request w' = cur_request at_amount \<and> db w' = db at_amount)"
    by (intro conjI)
  then show ?thesis unfolding u_def v_def c_def .
qed

text \<open>
  The input that separates the code from the claim as the specification words it: in stage
  \<open>amount\<close> the utterance "0" has no affirmative token and \<open>extract_amount\<close> finds the
  amount 0 with the currency "USD", yet the test \<open>if amount\<close> is false for 0.0: the stage
  stays \<open>amount\<close>, no amount is stored and the assistant answers that it could not detect
  an amount.
\<close>

theorem C5_found_zero_amount_reprompts:
  "cur_stage at_amount = ''amount'' \<and> \<not> affirmative (lower ''0'')
   \<and> extract_amount (lower ''0'') = Inr (Some 0, Some ''USD'')
   \<and> cur_stage (after_turn env_ok at_amount ''0'') = ''amount''
   \<and> amount (cur_request (after_turn env_ok at_amount ''0'')) = None
   \<and> map m_text (drop (length (transcript at_amount)) (transcript (after_turn env_ok at_amount ''0'')))
       = [Said ''0'', No_Amount]"
  unfolding at_amount_eq by code_simp

text \<open>
  Claim C6, at the input where the code departs from it. In stage \<open>reason\<close> the utterance
  "Client dinner with partners" has four tokens and no affirmative token; the turn stores
  as the reason the lower-cased text "client dinner with partners", not the utterance as
  the user gave it.
\<close>

theorem C6_reason_stored_lower_cased:
  "stage at_reason = Some ''reason'' \<and> \<not> affirmative (lower ''Client dinner with partners'')
   \<and> length (split (lower ''Client dinner with partners'')) = 4
   \<and> reason (cur_request (after_turn env_ok at_reason ''Client dinner with partners''))
       = Some ''client dinner with partners''
   \<and> cur_stage (after_turn env_ok at_reason ''Client dinner with partners'') = ''confirm''"
  unfolding at_reason_eq by code_simp

text \<open>
  Claim C7. In stage \<open>confirm\<close>: when the lower-cased utterance is exactly "no" or "cancel",
  the turn sets the stage to \<open>project\<close>, empties the request, appends the message of
  cancellation and leaves the table as it was; any other utterance without an affirmative
  token leaves the stage, the request and the table as they were and appends the request
  to confirm with yes or no.
\<close>

theorem C7_confirm_stage:
  assumes "stage w = Some ''confirm''"
  shows "(lower u = ''no'' \<or> lower u = ''cancel'' \<longrightarrow>
            (\<exists>w'. process_request e w u = Inr w' \<and> stage w' = Some ''project''
               \<and> request w' = Some empty_request \<and> db w' = db w
               \<and> transcript w' = transcript w @ [\<lparr>m_text = Said u, m_sender = ''user''\<rparr>,
                     \<lparr>m_text = Cancelled, m_sender = ''assistant''\<rparr>]))
       \<and> (\<not> affirmative (lower u) \<and> lower u \<noteq> ''no'' \<and> lower u \<noteq> ''cancel'' \<longrightarrow>
            (\<exists>w'. process_request e w u = Inr w' \<and> stage w' = Some ''confirm''
               \<and> cur_request w' = cur_request w \<and> db w' = db w
               \<and> transcript w' = transcript w @ [\<lparr>m_text = Said u, m_sender = ''user''\<rparr>,
                     \<lparr>m_text = Confirm_Yes_No, m_sender = ''assistant''\<rparr>]))"
proof (intro conjI impI)
  assume "lower u = ''no'' \<or> lower u = ''cancel''"
  then show "\<exists>w'. process_request e w u = Inr w' \<and> stage w' = Some ''project''
               \<and> request w' = Some empty_request \<and> db w' = db w
               \<and> transcript w' = transcript w @ [\<lparr>m_text = Said u, m_sender = ''user''\<rparr>,
                     \<lparr>m_text = Cancelled, m_sender = ''assistant''\<rparr>]"
    using assms not_affirmative_no
    by (auto simp: turn_defs process_request_def lower_no split: option.splits)
next
  assume "\<not> affirmative (lower u) \<and> lower u \<noteq> ''no'' \<and> lower u \<noteq> ''cancel''"
  then show "\<exists>w'. process_request e w u = Inr w' \<and> stage w' = Some ''confirm''
               \<and> cur_request w' = cur_request w \<and> db w' = db w
               \<and> transcript w' = transcript w @ [\<lparr>m_text = Said u, m_sender = ''user''\<rparr>,
                     \<lparr>m_text = Confirm_Yes_No, m_sender = ''assistant''\<rparr>]"
    using assms
    by (auto simp: turn_defs process_request_def lower_idem split: option.splits)
qed

theorem C7_confirm_stage_witness:
  "stage at_confirm = Some ''confirm''
   \<and> (\<exists>w'. process_request env_ok at_confirm ''Cancel'' = Inr w' \<and> stage w' = Some ''project''
          \<and> request w' = Some empty_request \<and> db w' = db at_confirm)
   \<and> (\<exists>w'. process_request env_ok at_confirm ''maybe'' = Inr w' \<and> stage w' = Some ''confirm''
          \<and> cur_request w' = cur_request at_confirm \<and> db w' = db at_confirm)"
proof -
  define x where "x = ''Cancel''"
  define y where "y = ''maybe''"
  have h: "stage at_confirm = Some ''confirm''" unfolding at_confirm_eq by code_simp
  have c: "lower x = ''no'' \<or> lower x = ''cancel''" unfolding x_def by code_simp
  have m: "\<not> affirmative (lower y) \<and> lower y \<noteq> ''no'' \<and> lower y \<noteq> ''cancel''"
    unfolding y_def by code_simp
  from c C7_confirm_stage [OF h, of x env_ok]
  have r1: "\<exists>w'. process_request env_ok at_confirm x = Inr w' \<and> stage w' = Some ''project''
          \<and> request w' = Some empty_request \<and> db w' = db at_confirm" by blast
  from m C7_confirm_stage [OF h, of y env_ok]
  have r2: "\<exists>w'. process_request env_ok at_confirm y = Inr w' \<and> stage w' = Some ''confirm''
          \<and> cur_request w' = cur_request at_confirm \<and> db w' = db at_confirm" by blast
  from h r1 r2 have "stage at_confirm = Some ''confirm''
   \<and> (\<exists>w'. process_request env_ok at_confirm x = Inr w' \<and> stage w' = Some ''project''
          \<and> request w' = Some empty_request \<and> db w' = db at_confirm)
   \<and> (\<exists>w'. process_request env_ok at_confirm y = Inr w' \<and> stage w' = Some ''confirm''
          \<and> cur_request w' = cur_request at_confirm \<and> db w' = db at_confirm)"
    by (intro conjI)
  then show ?thesis unfolding x_def y_def .
qed

text \<open>
  Claim C8. \<open>extract_amount\<close> returns normally on every text: \<open>float\<close> is only ever given
  a number token, which it accepts; its two results are \<open>None\<close> together, exactly when the
  pattern matches nowhere. \<open>extract_project_info\<close> has no operation that can raise; its
  name is \<open>None\<close> exactly when the text has no character of the name class, and its number
  is \<open>None\<close> exactly when the number pattern matches nowhere. A text without a digit gives
  \<open>None\<close> for the amount, the currency and the project number.
\<close>

theorem C8_extractors_total:
  "(\<exists>a c. extract_amount t = Inr (a, c) \<and> (a = None \<longleftrightarrow> c = None)
       \<and> (a = None \<longleftrightarrow> search amount_re t = None))
   \<and> (fst (extract_project_info t) = None \<longleftrightarrow> \<not> list_ex name_char t)
   \<and> (snd (extract_project_info t) = None \<longleftrightarrow> search project_number_re t = None)
   \<and> (\<not> list_ex is_digit t \<longrightarrow>
        extract_amount t = Inr (None, None) \<and> snd (extract_project_info t) = None)"
proof -
  have a: "\<exists>a c. extract_amount t = Inr (a, c) \<and> (a = None \<longleftrightarrow> c = None)
       \<and> (a = None \<longleftrightarrow> search amount_re t = None)"
    using extract_amount_cases [of t] by auto
  have d: "\<not> list_ex is_digit t \<longrightarrow>
        extract_amount t = Inr (None, None) \<and> snd (extract_project_info t) = None"
  proof
    assume nd: "\<not> list_ex is_digit t"
    have "search amount_re t = None"
      using amount_match_has_digit [of t] nd by (cases "search amount_re t") (auto simp: list_ex_iff)
    moreover have "search project_number_re t = None"
      using number_match_has_digit [of t] nd
      by (cases "search project_number_re t") (auto simp: list_ex_iff)
    ultimately show "extract_amount t = Inr (None, None) \<and> snd (extract_project_info t) = None"
      by (simp add: extract_amount_def project_number_None)
  qed
  from a d project_name_None [of t] project_number_None [of t] show ?thesis by blast
qed

theorem C8_extractors_total_witness:
  "\<not> list_ex is_digit ''no numbers here''
   \<and> extract_amount ''no numbers here'' = Inr (None, None)
   \<and> snd (extract_project_info ''no numbers here'') = None
   \<and> fst (extract_project_info ''no numbers here'') \<noteq> None"
proof -
  define t where "t = ''no numbers here''"
  have h: "\<not> list_ex is_digit t" unfolding t_def by code_simp
  have n: "list_ex name_char t" unfolding t_def by code_simp
  from h n C8_extractors_total [of t] have "\<not> list_ex is_digit t
   \<and> extract_amount t = Inr (None, None) \<and> snd (extract_project_info t) = None
   \<and> fst (extract_project_info t) \<noteq> None"
    by blast
  then show ?thesis unfolding t_def .
qed

text \<open>
  Claim C9, as amended. In stage \<open>confirm\<close>, when the store rejects the insertion that an
  affirmative utterance causes, \<open>process_request\<close> does not return: the database error
  leaves it as an exception. The state it leaves is in stage \<open>confirm\<close> with the request
  and the table as they were, and the transcript longer by the user's utterance only.
\<close>

theorem C9_store_failure:
  assumes "cur_stage w = ''confirm''" and "affirmative (lower u)" and "\<not> db_ok e"
  shows "\<exists>w'. process_request e w u = Inl (DatabaseError, w')
           \<and> cur_stage w' = ''confirm'' \<and> cur_request w' = cur_request w \<and> db w' = db w
           \<and> transcript w' = transcript w @ [\<lparr>m_text = Said u, m_sender = ''user''\<rparr>]"
  using turn_store_failed [where xp = extract_project_info and xa = extract_amount, OF assms(2,1,3)]
  unfolding process_request_def [symmetric] .

theorem C9_store_failure_witness:
  "cur_stage at_confirm = ''confirm'' \<and> affirmative (lower ''yes'') \<and> \<not> db_ok env_down
   \<and> (\<exists>w'. process_request env_down at_confirm ''yes'' = Inl (DatabaseError, w')
          \<and> cur_stage w' = ''confirm'' \<and> cur_request w' = cur_request at_confirm
          \<and> db w' = db at_confirm
          \<and> transcript w' = transcript at_confirm @ [\<lparr>m_text = Said ''yes'', m_sender = ''user''\<rparr>])"
proof -
  have h1: "cur_stage at_confirm = ''confirm''" unfolding at_confirm_eq by code_simp
  have h2: "affirmative (lower ''yes'')" by code_simp
  have h3: "\<not> db_ok env_down" by code_simp
  from h1 h2 h3 C9_store_failure [OF h1 h2 h3] show ?thesis by (intro conjI)
qed

text \<open>
  The input that separates the code from the claim as the specification words it: in stage
  \<open>confirm\<close>, with a store that rejects the insertion, the utterance "yes" makes
  \<open>process_request\<close> raise, and the only message the turn has added to the transcript is
  the user's own: no message of the assistant reports the failure.
\<close>

theorem C9_store_failure_emits_no_message:
  "cur_stage at_confirm = ''confirm'' \<and> affirmative (lower ''yes'') \<and> \<not> db_ok env_down
   \<and> process_request env_down at_confirm ''yes''
       = Inl (DatabaseError, after_turn env_down at_confirm ''yes'')
   \<and> map m_sender (drop (length (transcript at_confirm))
        (transcript (after_turn env_down at_confirm ''yes''))) = [''user'']
   \<and> map m_text (drop (length (transcript at_confirm))
        (transcript (after_turn env_down at_confirm ''yes''))) = [Said ''yes'']"
  unfolding at_confirm_eq by code_simp



end
